theory Spec2Isabelle
  imports Complex_Main "HOL-Library.Sublist" "HOL-Library.AList"
begin

section \<open>Errors raised by the notebook's code\<close>

datatype py_error =
    ZeroDivisionError
  | ValueError
  | FileExistsError
  | FileNotFoundError
  | NotADirectoryError
  | IsADirectoryError
  | KeyError
  | UncaughtException
  | AttributeError
  | DanglingReference

section \<open>Batch sizing (notebook cells 539ab7b9 and 424da1e7)\<close>

definition MAX_MEMORY_BYTES :: nat where
  "MAX_MEMORY_BYTES = 60000000"

definition GPU_COUNT :: nat where
  "GPU_COUNT = 8"

text \<open>
  \<^verbatim>\<open>bytes_per_sample = (features + num_classes) * 4\<close> and
  \<^verbatim>\<open>max_batch_size = MAX_MEMORY_BYTES // bytes_per_sample\<close>. Both operands are counts
  (a column count and the size of a set of labels), so they are naturals; Python's
  floor division raises on a zero divisor.
\<close>

definition bytes_per_sample :: "nat \<Rightarrow> nat \<Rightarrow> nat" where
  "bytes_per_sample features num_classes = (features + num_classes) * 4"

definition max_batch_size :: "nat \<Rightarrow> nat \<Rightarrow> py_error + nat" where
  "max_batch_size features num_classes =
     (if bytes_per_sample features num_classes = 0 then Inl ZeroDivisionError
      else Inr (MAX_MEMORY_BYTES div bytes_per_sample features num_classes))"

text \<open>
  A two-dimensional array is the list of its rows; only the first axis is ever split.
  \<^verbatim>\<open>np.array_split(ary, n)\<close> along axis 0: for \<open>l\<close> rows it returns \<open>l % n\<close> sections of
  \<open>l // n + 1\<close> rows followed by \<open>n - l % n\<close> sections of \<open>l // n\<close> rows, cut from the
  array in order, and raises ValueError when \<open>n\<close> is not positive.
\<close>

type_synonym 'a ndarray = "'a list list"

fun split_sections :: "nat list \<Rightarrow> 'a list \<Rightarrow> 'a list list" where
  "split_sections [] xs = []"
| "split_sections (s # ss) xs = take s xs # split_sections ss (drop s xs)"

definition section_sizes :: "nat \<Rightarrow> nat \<Rightarrow> nat list" where
  "section_sizes ntotal nsections =
     replicate (ntotal mod nsections) (ntotal div nsections + 1) @
     replicate (nsections - ntotal mod nsections) (ntotal div nsections)"

definition array_split :: "'a list \<Rightarrow> nat \<Rightarrow> py_error + 'a list list" where
  "array_split ary nsections =
     (if nsections = 0 then Inl ValueError
      else Inr (split_sections (section_sizes (length ary) nsections) ary))"

text \<open>
  \<^verbatim>\<open>
  def create_batches(arr):
      chunks = (
          arr.shape[0] // max_batch_size +
          int(bool(arr.shape[0] % max_batch_size) or arr.shape[0] < max_batch_size)
      )
      return np.array_split(arr, max(GPU_COUNT, chunks))
  \<close>
  The global \<open>max_batch_size\<close> is the first argument of the model. The division is
  evaluated first and raises when it is zero.
\<close>

definition chunks_needed :: "nat \<Rightarrow> nat \<Rightarrow> nat" where
  "chunks_needed mbs n = n div mbs + (if 0 < n mod mbs \<or> n < mbs then 1 else 0)"

definition create_batches :: "nat \<Rightarrow> 'a ndarray \<Rightarrow> py_error + 'a ndarray list" where
  "create_batches mbs arr =
     (if mbs = 0 then Inl ZeroDivisionError
      else array_split arr (max GPU_COUNT (chunks_needed mbs (length arr))))"

section \<open>Waiting for the server (notebook cell 66742762)\<close>

text \<open>
  \<^verbatim>\<open>
  server_start = time.time()
  while True:
      try:
          if client.is_server_ready() or time.time() - server_start > TIMEOUT:
              break
      except triton_utils.InferenceServerException:
          pass
      time.sleep(1)
  \<close>
  The environment of the loop is what the two external calls answer: \<open>probe i\<close> is
  the outcome of the call of \<^verbatim>\<open>client.is_server_ready()\<close> made in iteration \<open>i\<close>
  (a boolean, the exception the loop catches, or any other exception), and \<open>clock i\<close>
  is what \<^verbatim>\<open>time.time()\<close> reads in iteration \<open>i\<close>. The probe is the left operand of
  \<^verbatim>\<open>or\<close>: the clock is read only after the probe has returned. The loop may run
  forever, so it is a partial function: \<open>None\<close> is "never leaves the loop",
  \<open>Some (Inr i)\<close> is "left the loop by \<^verbatim>\<open>break\<close> in iteration \<open>i\<close>", \<open>Some (Inl e)\<close> is
  an exception that the loop does not catch.
\<close>

datatype probe_result = Returns bool | RaisesInferenceServerException | RaisesOther

definition TIMEOUT :: real where
  "TIMEOUT = 60"

partial_function (option) wait_for_server ::
  "(nat \<Rightarrow> probe_result) \<Rightarrow> (nat \<Rightarrow> real) \<Rightarrow> real \<Rightarrow> nat \<Rightarrow> (py_error + nat) option" where
  "wait_for_server probe clock server_start i =
     (case probe i of
        Returns ready \<Rightarrow>
          if ready \<or> clock i - server_start > TIMEOUT then Some (Inr i)
          else wait_for_server probe clock server_start (Suc i)
      | RaisesInferenceServerException \<Rightarrow> wait_for_server probe clock server_start (Suc i)
      | RaisesOther \<Rightarrow> Some (Inl UncaughtException))"

section \<open>Paths and the files written (notebook cells b7126325, 2db311a7, 0e794668)\<close>





text \<open>
  The file tree: a place in it is the list of the names that lead to it from the root,
  so the root is \<open>[]\<close>, and at a place there is a directory, a regular file with its
  content, or nothing. The root is a directory. There are no symbolic links, and the
  operating system's limits on the length of names are left out.
\<close>

datatype node = Dir | File string

type_synonym path = "string list"













text \<open>\<^verbatim>\<open>str(n)\<close> for a natural number: its decimal digits.\<close>

fun str_nat :: "nat \<Rightarrow> string" where
  "str_nat n =
     (if n < 10 then [''0123456789'' ! n]
      else str_nat (n div 10) @ [''0123456789'' ! (n mod 10)])"

declare str_nat.simps [simp del]

text \<open>
  \<^verbatim>\<open>str.lower()\<close> on the ASCII letters. No character outside ASCII has a lower case
  among \<open>c\<close>, \<open>p\<close> and \<open>u\<close>, so the comparison with \<^verbatim>\<open>'cpu'\<close> sees nothing else.
\<close>

definition lower_char :: "char \<Rightarrow> char" where
  "lower_char c =
     (case map_of (zip ''ABCDEFGHIJKLMNOPQRSTUVWXYZ'' ''abcdefghijklmnopqrstuvwxyz'') c of
        Some l \<Rightarrow> l
      | None \<Rightarrow> c)"

definition lower :: "string \<Rightarrow> string" where
  "lower s = map lower_char s"

text \<open>
  The text of \<^verbatim>\<open>config.pbtxt\<close>: the f-string of \<^verbatim>\<open>generate_config\<close>, line by line
  (a doubled brace of the f-string is one brace of the text), the lines joined by
  newlines as the triple-quoted literal has them. The globals \<open>max_batch_size\<close>,
  \<open>features\<close> and \<open>num_classes\<close> are arguments.
\<close>

definition config_lines :: "nat \<Rightarrow> nat \<Rightarrow> nat \<Rightarrow> string \<Rightarrow> string \<Rightarrow> string list" where
  \<open>config_lines mbs features num_classes instance_kind storage_type =
     [''backend: "fil"'',
      ''max_batch_size: '' @ str_nat mbs,
      ''input [                                 '',
      '' {  '',
      ''    name: "input__0"'',
      ''    data_type: TYPE_FP32'',
      ''    dims: [ '' @ str_nat features @ '' ]                    '',
      ''  } '',
      '']'',
      ''output ['',
      '' {'',
      ''    name: "output__0"'',
      ''    data_type: TYPE_FP32'',
      ''    dims: [ '' @ str_nat num_classes @ '' ]'',
      ''  }'',
      '']'',
      ''instance_group [{ kind: '' @ instance_kind @ '' }]'',
      ''parameters ['',
      ''  {'',
      ''    key: "model_type"'',
      ''    value: { string_value: "xgboost_json" }'',
      ''  },'',
      ''  {'',
      ''    key: "predict_proba"'',
      ''    value: { string_value: "true" }'',
      ''  },'',
      ''  {'',
      ''    key: "output_class"'',
      ''    value: { string_value: "true" }'',
      ''  },'',
      ''  {'',
      ''    key: "threshold"'',
      ''    value: { string_value: "0.5" }'',
      ''  },'',
      ''  {'',
      ''    key: "storage_type"'',
      ''    value: { string_value: "'' @ storage_type @ ''" }'',
      ''  }'',
      '']'',
      '''',
      ''dynamic_batching {'',
      ''  max_queue_delay_microseconds: 100'',
      ''}'']\<close>

fun join_lines :: "string list \<Rightarrow> string" where
  "join_lines [] = []"
| "join_lines [l] = l"
| "join_lines (l # ls) = l @ CHR ''\<newline>'' # join_lines ls"

definition instance_kind_of :: "string \<Rightarrow> string" where
  "instance_kind_of deployment_type =
     (if lower deployment_type = ''cpu'' then ''KIND_CPU'' else ''KIND_GPU'')"

definition config_text :: "nat \<Rightarrow> nat \<Rightarrow> nat \<Rightarrow> string \<Rightarrow> string \<Rightarrow> string" where
  "config_text mbs features num_classes deployment_type storage_type =
     join_lines
       (config_lines mbs features num_classes (instance_kind_of deployment_type) storage_type)"


text \<open>The lines of a text, as \<^verbatim>\<open>text.split('\n')\<close> gives them.\<close>

fun split_lines :: "string \<Rightarrow> string list" where
  "split_lines [] = [[]]"
| "split_lines (c # cs) =
     (if c = CHR ''\<newline>'' then [] # split_lines cs
      else (case split_lines cs of [] \<Rightarrow> [[c]] | l # ls \<Rightarrow> (c # l) # ls))"

declare split_lines.simps [simp del]

text \<open>What it is for a text to contain a line, or some lines in a row.\<close>

definition contains_line :: "string \<Rightarrow> string \<Rightarrow> bool" where
  "contains_line text l = (l \<in> set (split_lines text))"

definition contains_block :: "string \<Rightarrow> string list \<Rightarrow> bool" where
  "contains_block text ls = sublist ls (split_lines text)"

section \<open>Training (notebook cells 9aec11f0, fcc239af, 8f57524f)\<close>

text \<open>
  The trainer is external: what the notebook contributes is the calls it makes. A call
  is the keyword arguments given to \<^verbatim>\<open>xgb.XGBClassifier\<close> and the arguments of
  \<^verbatim>\<open>fit\<close>; the state is the list of the calls made so far, and the trained model is
  identified with the call that made it.
\<close>

record xgb_params =
  tree_method :: string
  enable_categorical :: bool
  use_label_encoder :: bool
  predictor :: string
  eval_metric :: string
  objective :: string
  max_depth :: nat
  n_estimators :: nat

record 'd trainer_call =
  classifier :: xgb_params
  fit_X :: 'd
  fit_y :: 'd
  eval_set :: "('d \<times> 'd) list"

text \<open>
  \<^verbatim>\<open>
  def train_model(num_trees, max_depth):
      model = xgb.XGBClassifier(
          tree_method='gpu_hist', enable_categorical=USE_CATEGORICAL,
          use_label_encoder=False, predictor='gpu_predictor',
          eval_metric='aucpr', objective='binary:logistic',
          max_depth=max_depth, n_estimators=num_trees)
      model.fit(X_train, y_train, eval_set=[(X_test, y_test)])
      return model
  \<close>
  The globals \<open>USE_CATEGORICAL\<close>, \<open>X_train\<close>, \<open>y_train\<close>, \<open>X_test\<close> and \<open>y_test\<close> are
  arguments.
\<close>

definition train_model ::
  "bool \<Rightarrow> 'd \<Rightarrow> 'd \<Rightarrow> 'd \<Rightarrow> 'd \<Rightarrow> 'd trainer_call list \<Rightarrow> nat \<Rightarrow> nat
     \<Rightarrow> 'd trainer_call \<times> 'd trainer_call list" where
  "train_model USE_CATEGORICAL X_train y_train X_test y_test calls num_trees depth =
     (let model = \<lparr>tree_method = ''gpu_hist'',
                   enable_categorical = USE_CATEGORICAL,
                   use_label_encoder = False,
                   predictor = ''gpu_predictor'',
                   eval_metric = ''aucpr'',
                   objective = ''binary:logistic'',
                   max_depth = depth,
                   n_estimators = num_trees\<rparr>;
          call = \<lparr>classifier = model, fit_X = X_train, fit_y = y_train,
                  eval_set = [(X_test, y_test)]\<rparr>
      in (call, calls @ [call]))"

text \<open>
  \<^verbatim>\<open>small_model = train_model(500, 3)\<close> and \<^verbatim>\<open>large_model = train_model(5000, 12)\<close>,
  the only two calls of \<^verbatim>\<open>train_model\<close> in the notebook, run on an empty list of
  calls.
\<close>

definition train_models ::
  "bool \<Rightarrow> 'd \<Rightarrow> 'd \<Rightarrow> 'd \<Rightarrow> 'd
     \<Rightarrow> 'd trainer_call \<times> 'd trainer_call \<times> 'd trainer_call list" where
  "train_models USE_CATEGORICAL X_train y_train X_test y_test =
     (let (small_model, calls1) =
            train_model USE_CATEGORICAL X_train y_train X_test y_test [] 500 3;
          (large_model, calls2) =
            train_model USE_CATEGORICAL X_train y_train X_test y_test calls1 5000 12
      in (small_model, large_model, calls2))"

section \<open>Replacing missing values (notebook cell de552313)\<close>

text \<open>
  A table is the list of its named columns, in order. A column has a dtype and one
  optional value per row, \<open>None\<close> where the value is missing. \<open>float64\<close> and \<open>object\<close>
  are the two dtypes the cell selects; \<open>int64\<close> stands for the columns of any other
  dtype (cuDF columns of every dtype can hold missing values). The floating-point
  numbers are a type parameter.
\<close>

datatype 'f column =
    Float64 "'f option list"
  | Object "string option list"
  | Int64 "int option list"

type_synonym 'f dataframe = "(string \<times> 'f column) list"

fun isna_any :: "'f column \<Rightarrow> bool" where
  "isna_any (Float64 xs) = (None \<in> set xs)"
| "isna_any (Object xs) = (None \<in> set xs)"
| "isna_any (Int64 xs) = (None \<in> set xs)"

text \<open>\<^verbatim>\<open>data.columns[data.isna().any().to_pandas()]\<close>\<close>

definition nan_columns :: "'f dataframe \<Rightarrow> string list" where
  "nan_columns data = map fst (filter (\<lambda>(n, c). isna_any c) data)"

text \<open>\<^verbatim>\<open>data[names]\<close>, for names taken from \<open>data\<close> itself in its column order.\<close>

definition select_columns :: "'f dataframe \<Rightarrow> string list \<Rightarrow> 'f dataframe" where
  "select_columns data names = filter (\<lambda>(n, c). n \<in> set names) data"

text \<open>\<^verbatim>\<open>select_dtypes(include='float64')\<close> and \<^verbatim>\<open>select_dtypes(include='object')\<close>\<close>

fun float64_subset :: "'f dataframe \<Rightarrow> (string \<times> 'f option list) list" where
  "float64_subset [] = []"
| "float64_subset ((n, Float64 xs) # t) = (n, xs) # float64_subset t"
| "float64_subset ((n, c) # t) = float64_subset t"

fun object_subset :: "'f dataframe \<Rightarrow> (string \<times> string option list) list" where
  "object_subset [] = []"
| "object_subset ((n, Object xs) # t) = (n, xs) # object_subset t"
| "object_subset ((n, c) # t) = object_subset t"

definition observed :: "'a option list \<Rightarrow> 'a list" where
  "observed xs = List.map_filter (\<lambda>x. x) xs"

definition fill :: "'a \<Rightarrow> 'a option list \<Rightarrow> 'a option list" where
  "fill v xs = map (\<lambda>x. case x of None \<Rightarrow> Some v | Some y \<Rightarrow> Some y) xs"

text \<open>
  \<^verbatim>\<open>SimpleImputer(missing_values=cp.nan, strategy='median').fit_transform(frame)\<close>:
  every missing value of a column becomes the median of the column's observed values.
  The median is the argument \<open>median\<close>, whatever the library computes in floating
  point. The imputer rejects a frame without columns, and it drops a column without
  any observed value, after which the assignment of the result to the selected
  columns fails: both are errors here.
\<close>

definition fit_transform ::
  "('f list \<Rightarrow> 'f) \<Rightarrow> (string \<times> 'f option list) list
     \<Rightarrow> py_error + (string \<times> 'f option list) list" where
  "fit_transform median frame =
     (if frame = [] then Inl ValueError
      else if list_ex (\<lambda>(n, xs). observed xs = []) frame then Inl KeyError
      else Inr (map (\<lambda>(n, xs). (n, fill (median (observed xs)) xs)) frame))"

text \<open>\<^verbatim>\<open>frame.fillna(value)\<close> on a frame of object columns\<close>

definition fillna :: "string \<Rightarrow> (string \<times> string option list) list
     \<Rightarrow> (string \<times> string option list) list" where
  "fillna v frame = map (\<lambda>(n, xs). (n, fill v xs)) frame"

text \<open>
  \<^verbatim>\<open>data[value.columns] = value\<close>: each named column of \<open>data\<close> is replaced, in place,
  by the column of that name in \<open>value\<close>.
\<close>

fun setitem_columns :: "'f dataframe \<Rightarrow> 'f dataframe \<Rightarrow> 'f dataframe" where
  "setitem_columns data [] = data"
| "setitem_columns data ((n, c) # v) = setitem_columns (AList.update n c data) v"

text \<open>
  \<^verbatim>\<open>
  nan_columns = data.columns[data.isna().any().to_pandas()]
  float_nan_subset = data[nan_columns].select_dtypes(include='float64')
  imputer = SimpleImputer(missing_values=cp.nan, strategy='median')
  data[float_nan_subset.columns] = imputer.fit_transform(float_nan_subset)
  obj_nan_subset = data[nan_columns].select_dtypes(include='object')
  data[obj_nan_subset.columns] = obj_nan_subset.fillna('UNKNOWN')
  \<close>
\<close>

definition replace_nans :: "('f list \<Rightarrow> 'f) \<Rightarrow> 'f dataframe \<Rightarrow> py_error + 'f dataframe" where
  "replace_nans median data =
     (let nans = nan_columns data;
          float_nan_subset = float64_subset (select_columns data nans) in
      case fit_transform median float_nan_subset of
        Inl e \<Rightarrow> Inl e
      | Inr imputed \<Rightarrow>
          (let data1 = setitem_columns data (map (\<lambda>(n, xs). (n, Float64 xs)) imputed);
               obj_nan_subset = object_subset (select_columns data1 nans);
               data2 = setitem_columns data1
                         (map (\<lambda>(n, xs). (n, Object xs)) (fillna ''UNKNOWN'' obj_nan_subset))
           in Inr data2))"

text \<open>
  The median of exact rationals, to run the cell on concrete tables: the middle value
  of the sorted list, or the mean of the two middle values.
\<close>

definition median_rat :: "rat list \<Rightarrow> rat" where
  "median_rat xs =
     (let s = sort xs; k = length s div 2 in
      if odd (length s) then s ! k else (s ! (k - 1) + s ! k) / 2)"

section \<open>Converting a test frame for submission (notebook cell c64db65d)\<close>

text \<open>
  Data frames are objects: a variable holds a reference, and \<^verbatim>\<open>df[col] = s\<close> changes
  the object that \<open>df\<close> refers to. The store maps references to frames; a frame is the
  list of its named columns. A column is categorical (codes and categories) or a plain
  list of cells.
\<close>

datatype 'f cell = IntCell int | FloatCell 'f | StrCell string

datatype 'f series = Categorical "int list" "string list" | Plain "'f cell list"

type_synonym 'f frame = "(string \<times> 'f series) list"

record 'f store =
  objects :: "nat \<rightharpoonup> 'f frame"
  next_ref :: nat

text \<open>\<^verbatim>\<open>df.copy()\<close>: a new object with a copy of the data.\<close>

definition df_copy :: "'f store \<Rightarrow> nat \<Rightarrow> py_error + ('f store \<times> nat)" where
  "df_copy st r =
     (case objects st r of
        None \<Rightarrow> Inl DanglingReference
      | Some f \<Rightarrow>
          Inr (st\<lparr>objects := (objects st)(next_ref st \<mapsto> f), next_ref := Suc (next_ref st)\<rparr>,
               next_ref st))"

text \<open>\<^verbatim>\<open>df.columns\<close>, \<^verbatim>\<open>df.select_dtypes('category').columns\<close>, \<^verbatim>\<open>df[col]\<close>\<close>

definition df_columns :: "'f store \<Rightarrow> nat \<Rightarrow> py_error + string list" where
  "df_columns st r =
     (case objects st r of None \<Rightarrow> Inl DanglingReference | Some f \<Rightarrow> Inr (map fst f))"

fun is_categorical :: "'f series \<Rightarrow> bool" where
  "is_categorical (Categorical codes cats) = True"
| "is_categorical (Plain cells) = False"

definition category_columns :: "'f store \<Rightarrow> nat \<Rightarrow> py_error + string list" where
  "category_columns st r =
     (case objects st r of
        None \<Rightarrow> Inl DanglingReference
      | Some f \<Rightarrow> Inr (map fst (filter (\<lambda>(n, s). is_categorical s) f)))"

definition getitem :: "'f store \<Rightarrow> nat \<Rightarrow> string \<Rightarrow> py_error + 'f series" where
  "getitem st r col =
     (case objects st r of
        None \<Rightarrow> Inl DanglingReference
      | Some f \<Rightarrow> (case map_of f col of None \<Rightarrow> Inl KeyError | Some s \<Rightarrow> Inr s))"

text \<open>\<^verbatim>\<open>df[col] = s\<close>: the object is changed in place.\<close>

definition setitem :: "'f store \<Rightarrow> nat \<Rightarrow> string \<Rightarrow> 'f series \<Rightarrow> py_error + 'f store" where
  "setitem st r col s =
     (case objects st r of
        None \<Rightarrow> Inl DanglingReference
      | Some f \<Rightarrow> Inr (st\<lparr>objects := (objects st)(r \<mapsto> AList.update col s f)\<rparr>))"

text \<open>\<^verbatim>\<open>s.cat.codes\<close>: only a categorical column has the accessor.\<close>

fun cat_codes :: "'f series \<Rightarrow> py_error + 'f series" where
  "cat_codes (Categorical codes cats) = Inr (Plain (map IntCell codes))"
| "cat_codes (Plain cells) = Inl AttributeError"

text \<open>\<^verbatim>\<open>for col in cat_cols: df[col] = df[col].cat.codes\<close>\<close>

fun encode_categories :: "'f store \<Rightarrow> nat \<Rightarrow> string list \<Rightarrow> py_error + 'f store" where
  "encode_categories st df [] = Inr st"
| "encode_categories st df (col # cols) =
     (case getitem st df col of
        Inl e \<Rightarrow> Inl e
      | Inr s \<Rightarrow>
          (case cat_codes s of
             Inl e \<Rightarrow> Inl e
           | Inr codes \<Rightarrow>
               (case setitem st df col codes of
                  Inl e \<Rightarrow> Inl e
                | Inr st' \<Rightarrow> encode_categories st' df cols)))"

text \<open>
  \<^verbatim>\<open>for col in df.columns: df[col] = pd.to_numeric(df[col], downcast='float')\<close>.
  The conversion itself is the library's and is the argument \<open>to_numeric\<close>; it may
  raise.
\<close>

fun downcast_columns ::
  "('f series \<Rightarrow> py_error + 'f series) \<Rightarrow> 'f store \<Rightarrow> nat \<Rightarrow> string list
     \<Rightarrow> py_error + 'f store" where
  "downcast_columns to_numeric st df [] = Inr st"
| "downcast_columns to_numeric st df (col # cols) =
     (case getitem st df col of
        Inl e \<Rightarrow> Inl e
      | Inr s \<Rightarrow>
          (case to_numeric s of
             Inl e \<Rightarrow> Inl e
           | Inr s' \<Rightarrow>
               (case setitem st df col s' of
                  Inl e \<Rightarrow> Inl e
                | Inr st' \<Rightarrow> downcast_columns to_numeric st' df cols)))"

text \<open>\<^verbatim>\<open>df.values\<close>: the data of the columns, without their names.\<close>

definition df_values :: "'f store \<Rightarrow> nat \<Rightarrow> py_error + 'f series list" where
  "df_values st r =
     (case objects st r of None \<Rightarrow> Inl DanglingReference | Some f \<Rightarrow> Inr (map snd f))"

text \<open>
  \<^verbatim>\<open>
  def convert_to_numpy(df):
      df = df.copy()
      cat_cols = df.select_dtypes('category').columns
      for col in cat_cols:
          df[col] = df[col].cat.codes
      for col in df.columns:
          df[col] =  pd.to_numeric(df[col], downcast='float')
      return df.values
  \<close>
  The argument \<open>arg\<close> is the reference the caller passes; the local variable \<open>df\<close> is
  rebound to the copy.
\<close>

definition convert_to_numpy ::
  "('f series \<Rightarrow> py_error + 'f series) \<Rightarrow> 'f store \<Rightarrow> nat
     \<Rightarrow> py_error + ('f store \<times> 'f series list)" where
  "convert_to_numpy to_numeric st arg =
     (case df_copy st arg of
        Inl e \<Rightarrow> Inl e
      | Inr (st1, df) \<Rightarrow>
          (case category_columns st1 df of
             Inl e \<Rightarrow> Inl e
           | Inr cat_cols \<Rightarrow>
               (case encode_categories st1 df cat_cols of
                  Inl e \<Rightarrow> Inl e
                | Inr st2 \<Rightarrow>
                    (case df_columns st2 df of
                       Inl e \<Rightarrow> Inl e
                     | Inr cols \<Rightarrow>
                         (case downcast_columns to_numeric st2 df cols of
                            Inl e \<Rightarrow> Inl e
                          | Inr st3 \<Rightarrow>
                              (case df_values st3 df of
                                 Inl e \<Rightarrow> Inl e
                               | Inr vals \<Rightarrow> Inr (st3, vals)))))))"

text \<open>
  A conversion over exact rationals, to run the function on concrete frames: integers
  become fractions, and a column with a string in it is taken not to parse.
\<close>

fun is_str :: "'f cell \<Rightarrow> bool" where
  "is_str (StrCell s) = True"
| "is_str (IntCell i) = False"
| "is_str (FloatCell x) = False"

fun to_float_cell :: "rat cell \<Rightarrow> rat cell" where
  "to_float_cell (IntCell i) = FloatCell (of_int i)"
| "to_float_cell (FloatCell x) = FloatCell x"
| "to_float_cell (StrCell s) = StrCell s"

fun to_numeric_rat :: "rat series \<Rightarrow> py_error + rat series" where
  "to_numeric_rat (Categorical codes cats) = Inl ValueError"
| "to_numeric_rat (Plain cells) =
     (if list_ex is_str cells then Inl ValueError else Inr (Plain (map to_float_cell cells)))"

section \<open>The final stage of the build file\<close>

text \<open>
  \<^verbatim>\<open>
  FROM ${BASE_IMAGE} as final
  ARG BACKEND_NAME
  ENV BACKEND_NAME=$BACKEND_NAME
  RUN mkdir /models
  RUN if [ -d /opt/tritonserver/backends/${BACKEND_NAME} ];
      then rm -rf /opt/tritonserver/backends/${BACKEND_NAME}/*;
      fi
  COPY --from=build-stage
    /opt/tritonserver/backends/$BACKEND_NAME
    /opt/tritonserver/backends/$BACKEND_NAME
  \<close>
  An image is a file tree, as above, and an environment.
\<close>

record image =
  tree :: "path \<rightharpoonup> node"
  env :: "string \<rightharpoonup> string"

datatype build_error = CommandFailed | CopySourceNotFound | CopySourceNotDirectory | CopyFailed

text \<open>
  \<^verbatim>\<open>ARG BACKEND_NAME\<close> has no default in this stage and none before the first
  \<^verbatim>\<open>FROM\<close>: the value is the build argument when one is passed and empty otherwise,
  and a variable of that name already in the image's environment takes precedence.
\<close>

definition backend_name :: "image \<Rightarrow> string option \<Rightarrow> string" where
  "backend_name base build_arg =
     (case env base ''BACKEND_NAME'' of
        Some v \<Rightarrow> v
      | None \<Rightarrow> (case build_arg of Some v \<Rightarrow> v | None \<Rightarrow> []))"

text \<open>
  The stage uses the name unquoted, in a shell command and in the paths of \<^verbatim>\<open>COPY\<close>.
  A plain name is one that both read as it stands, as one path component or none: it
  is empty, or made of letters, digits, \<^verbatim>\<open>_\<close>, \<^verbatim>\<open>-\<close> and \<^verbatim>\<open>.\<close> and is neither \<^verbatim>\<open>.\<close> nor
  \<^verbatim>\<open>..\<close>. Any other name (with a space, a slash, a character of a shell pattern, or
  one of the two dot entries) makes the shell or \<^verbatim>\<open>COPY\<close> act on other paths than
  \<open>backend_dir\<close> below, and is outside what the definitions after this one describe.
\<close>

definition plain_char :: "char \<Rightarrow> bool" where
  "plain_char c =
     (c \<in> set ''abcdefghijklmnopqrstuvwxyzABCDEFGHIJKLMNOPQRSTUVWXYZ0123456789_-.'')"

definition plain_name :: "string \<Rightarrow> bool" where
  "plain_name name = (name \<noteq> ''.'' \<and> name \<noteq> ''..'' \<and> list_all plain_char name)"

text \<open>
  \<^verbatim>\<open>/opt/tritonserver/backends/${BACKEND_NAME}\<close>, for a plain name: the name is one
  path component, or none when it is empty.
\<close>

definition backend_dir :: "string \<Rightarrow> path" where
  "backend_dir name =
     [''opt'', ''tritonserver'', ''backends''] @ (if name = [] then [] else [name])"

text \<open>\<^verbatim>\<open>RUN mkdir p\<close> fails when \<open>p\<close> exists or the directory above it does not.\<close>

definition run_mkdir :: "image \<Rightarrow> path \<Rightarrow> build_error + image" where
  "run_mkdir img p =
     (if p = [] \<or> tree img p \<noteq> None then Inl CommandFailed
      else if tree img (butlast p) = Some Dir then Inr (img\<lparr>tree := (tree img)(p \<mapsto> Dir)\<rparr>)
      else Inl CommandFailed)"

text \<open>
  \<^verbatim>\<open>rm -rf d/*\<close>, for the directory \<open>d\<close> of a plain name, which the shell neither
  splits nor expands: the shell expands the star to the entries of \<open>d\<close> whose names do
  not start with a dot, and each of them goes with everything below it.
\<close>

definition star_match :: "path \<Rightarrow> path \<Rightarrow> bool" where
  "star_match d p =
     (length d < length p \<and> take (length d) p = d \<and> take 1 (p ! length d) \<noteq> ''.'')"

definition run_rm_contents_if_dir :: "image \<Rightarrow> path \<Rightarrow> image" where
  "run_rm_contents_if_dir img d =
     (if tree img d = Some Dir
      then img\<lparr>tree := (\<lambda>p. if star_match d p then None else tree img p)\<rparr>
      else img)"

text \<open>
  \<^verbatim>\<open>COPY --from=stage src dst\<close> for a source that is a directory: everything below
  \<open>src\<close> in the other stage's tree is written below \<open>dst\<close>, over what is there; \<open>dst\<close> and
  the directories above it are created when missing. A source that does not exist
  fails the build. The build stage leaves a directory at the source path used here
  (it has emptied or created it before installing into it), so a source that is a
  regular file does not arise and is an error of the model.
\<close>

definition copy_from :: "(path \<rightharpoonup> node) \<Rightarrow> path \<Rightarrow> image \<Rightarrow> path \<Rightarrow> build_error + image" where
  "copy_from stage src img dst =
     (case stage src of
        None \<Rightarrow> Inl CopySourceNotFound
      | Some (File content) \<Rightarrow> Inl CopySourceNotDirectory
      | Some Dir \<Rightarrow>
          if list_ex (\<lambda>q. case tree img q of Some (File content) \<Rightarrow> True | _ \<Rightarrow> False)
               (prefixes dst)
          then Inl CopyFailed
          else Inr (img\<lparr>tree :=
                 (\<lambda>p. if length dst < length p \<and> take (length dst) p = dst
                          \<and> stage (src @ drop (length dst) p) \<noteq> None
                       then stage (src @ drop (length dst) p)
                       else if p \<in> set (prefixes dst) \<and> tree img p = None then Some Dir
                       else tree img p)\<rparr>))"

definition final_stage :: "image \<Rightarrow> (path \<rightharpoonup> node) \<Rightarrow> string option \<Rightarrow> build_error + image" where
  "final_stage base build_stage build_arg =
     (let name = backend_name base build_arg;
          img1 = base\<lparr>env := (env base)(''BACKEND_NAME'' \<mapsto> name)\<rparr> in
      case run_mkdir img1 [''models''] of
        Inl e \<Rightarrow> Inl e
      | Inr img2 \<Rightarrow>
          copy_from build_stage (backend_dir name)
            (run_rm_contents_if_dir img2 (backend_dir name)) (backend_dir name))"

text \<open>
  A small base image and the part of a build stage that matters, to run the final
  stage on: the base has a previous install of the backend, the build stage a new one
  beside its sources.
\<close>

definition example_base :: image where
  "example_base =
     \<lparr>tree = [[] \<mapsto> Dir,
              [''opt''] \<mapsto> Dir,
              [''opt'', ''tritonserver''] \<mapsto> Dir,
              [''opt'', ''tritonserver'', ''backends''] \<mapsto> Dir,
              [''opt'', ''tritonserver'', ''backends'', ''fil''] \<mapsto> Dir,
              [''opt'', ''tritonserver'', ''backends'', ''fil'', ''libtriton_fil.so'']
                \<mapsto> File ''old''],
      env = [''PATH'' \<mapsto> ''/opt/tritonserver/bin'']\<rparr>"

definition example_build_stage :: "path \<rightharpoonup> node" where
  "example_build_stage =
     [[] \<mapsto> Dir,
      [''rapids_triton''] \<mapsto> Dir,
      [''rapids_triton'', ''CMakeLists.txt''] \<mapsto> File ''cmake'',
      [''opt''] \<mapsto> Dir,
      [''opt'', ''tritonserver''] \<mapsto> Dir,
      [''opt'', ''tritonserver'', ''backends''] \<mapsto> Dir,
      [''opt'', ''tritonserver'', ''backends'', ''fil''] \<mapsto> Dir,
      [''opt'', ''tritonserver'', ''backends'', ''fil'', ''libtriton_fil.so'']
        \<mapsto> File ''new'']"

section \<open>Properties of the batches\<close>

lemma concat_split_sections:
  "concat (split_sections ss xs) = take (sum_list ss) xs"
proof (induction ss arbitrary: xs)
  case Nil
  show ?case by simp
next
  case (Cons s ss)
  have "take s xs @ take (sum_list ss) (drop s xs) = take (s + sum_list ss) xs"
    by (simp add: take_add)
  with Cons show ?case by simp
qed

lemma length_split_sections: "length (split_sections ss xs) = length ss"
  by (induction ss arbitrary: xs) simp_all

lemma split_sections_bound:
  "list_all (\<lambda>s. s \<le> m) ss \<Longrightarrow> list_all (\<lambda>c. length c \<le> m) (split_sections ss xs)"
  by (induction ss arbitrary: xs) (simp_all add: min.coboundedI2)

lemma sum_list_section_sizes:
  assumes "0 < n"
  shows "sum_list (section_sizes l n) = l"
proof -
  have le: "l mod n \<le> n" using assms by (simp add: less_imp_le)
  have "sum_list (section_sizes l n)
          = (l mod n) * (l div n + 1) + (n - l mod n) * (l div n)"
    by (simp add: section_sizes_def sum_list_replicate)
  also have "\<dots> = (l mod n + (n - l mod n)) * (l div n) + l mod n"
    by (simp add: algebra_simps)
  also have "\<dots> = n * (l div n) + l mod n"
    using le by simp
  also have "\<dots> = l" by simp
  finally show ?thesis .
qed

lemma length_section_sizes:
  assumes "0 < n"
  shows "length (section_sizes l n) = n"
  using assms by (simp add: section_sizes_def less_imp_le)

lemma chunks_needed_covers:
  assumes "0 < mbs"
  shows "n \<le> chunks_needed mbs n * mbs"
proof (cases "0 < n mod mbs \<or> n < mbs")
  case True
  have "n < mbs + (n div mbs) * mbs"
    using assms by (rule dividend_less_div_times)
  then have "n \<le> (n div mbs + 1) * mbs" by simp
  then show ?thesis using True by (simp add: chunks_needed_def)
next
  case False
  then have "n mod mbs = 0" by simp
  then have "n = (n div mbs) * mbs" by (metis add.right_neutral div_mult_mod_eq)
  then show ?thesis using False by (simp add: chunks_needed_def)
qed

lemma section_sizes_bound:
  assumes "0 < k" and "l \<le> k * mbs"
  shows "list_all (\<lambda>s. s \<le> mbs) (section_sizes l k)"
proof -
  have d: "l div k \<le> mbs"
    using assms by (metis div_le_mono nonzero_mult_div_cancel_left less_numeral_extra(3))
  have "l div k + 1 \<le> mbs" if "0 < l mod k"
  proof (rule ccontr)
    assume "\<not> l div k + 1 \<le> mbs"
    with d have e: "l div k = mbs" by simp
    have "l = k * (l div k) + l mod k" by simp
    with e that have "k * mbs < l" by (metis less_add_same_cancel1)
    with assms(2) show False by simp
  qed
  then show ?thesis
    using d by (auto simp: section_sizes_def list_all_iff)
qed


text \<open>
  Claim C8, as amended. For a positive \<open>max_batch_size\<close> and an array with at least
  one row, \<open>create_batches\<close> returns chunks whose concatenation, in order, is the array
  row for row, and it returns at least \<open>GPU_COUNT\<close> chunks.
\<close>

theorem create_batches_concat:
  assumes "0 < mbs" and "arr \<noteq> []"
  shows "\<exists>chunks. create_batches mbs arr = Inr chunks \<and> concat chunks = arr
           \<and> GPU_COUNT \<le> length chunks"
proof -
  let ?k = "max GPU_COUNT (chunks_needed mbs (length arr))"
  let ?chunks = "split_sections (section_sizes (length arr) ?k) arr"
  have k: "0 < ?k" by (simp add: GPU_COUNT_def)
  have run: "create_batches mbs arr = Inr ?chunks"
    using assms(1) by (simp add: create_batches_def array_split_def GPU_COUNT_def)
  have cat: "concat ?chunks = arr"
    using k by (simp add: concat_split_sections sum_list_section_sizes)
  have len: "length ?chunks = ?k"
    using k by (simp add: length_split_sections length_section_sizes)
  from run cat len show ?thesis by simp
qed

theorem create_batches_concat_witness:
  "(0::nat) < 2 \<and> [[1::int, 2], [3, 4], [5, 6]] \<noteq> []
     \<and> (\<exists>chunks. create_batches 2 [[1::int, 2], [3, 4], [5, 6]] = Inr chunks
           \<and> concat chunks = [[1, 2], [3, 4], [5, 6]] \<and> GPU_COUNT \<le> length chunks)"
  using create_batches_concat [of 2 "[[1::int, 2], [3, 4], [5, 6]]"] by simp

text \<open>
  Claim C8 as stated leaves \<open>max_batch_size\<close> open. It is zero when a sample takes
  more than \<open>MAX_MEMORY_BYTES\<close> bytes, and then the division in \<open>create_batches\<close>
  raises and no chunk is returned.
\<close>

theorem create_batches_zero_batch_size:
  "max_batch_size 15000000 2 = Inr 0
   \<and> create_batches 0 [[1::int, 2], [3, 4], [5, 6]] = Inl ZeroDivisionError"
  by (simp add: create_batches_def max_batch_size_def bytes_per_sample_def
        MAX_MEMORY_BYTES_def)

text \<open>
  Claim C9. For an array of \<open>n \<ge> 1\<close> rows and \<open>max_batch_size \<ge> 1\<close>, the array is split
  into \<open>max(GPU_COUNT, chunks)\<close> parts, where \<open>chunks\<close> is \<open>n // max_batch_size\<close> plus one
  exactly when \<open>n\<close> is not a multiple of \<open>max_batch_size\<close> or is smaller than it, and no
  part has more than \<open>max_batch_size\<close> rows.
\<close>

theorem create_batches_chunk_bound:
  assumes "0 < mbs" and "arr \<noteq> []"
  shows "\<exists>chunks. create_batches mbs arr = Inr chunks
           \<and> length chunks = max GPU_COUNT (chunks_needed mbs (length arr))
           \<and> chunks_needed mbs (length arr)
               = length arr div mbs + (if mbs dvd length arr \<and> mbs \<le> length arr then 0 else 1)
           \<and> list_all (\<lambda>c. length c \<le> mbs) chunks"
proof -
  let ?n = "length arr"
  let ?k = "max GPU_COUNT (chunks_needed mbs ?n)"
  let ?chunks = "split_sections (section_sizes ?n ?k) arr"
  have k: "0 < ?k" by (simp add: GPU_COUNT_def)
  have run: "create_batches mbs arr = Inr ?chunks"
    using assms(1) by (simp add: create_batches_def array_split_def GPU_COUNT_def)
  have len: "length ?chunks = ?k"
    using k by (simp add: length_split_sections length_section_sizes)
  have count: "chunks_needed mbs ?n
                 = ?n div mbs + (if mbs dvd ?n \<and> mbs \<le> ?n then 0 else 1)"
    using assms(1) by (auto simp: chunks_needed_def dvd_eq_mod_eq_0 not_le)
  have "?n \<le> chunks_needed mbs ?n * mbs"
    using assms(1) by (rule chunks_needed_covers)
  also have "\<dots> \<le> ?k * mbs" by (simp add: mult_le_mono1)
  finally have "?n \<le> ?k * mbs" .
  with k have "list_all (\<lambda>s. s \<le> mbs) (section_sizes ?n ?k)"
    by (rule section_sizes_bound)
  then have bound: "list_all (\<lambda>c. length c \<le> mbs) ?chunks"
    by (rule split_sections_bound)
  from run len count bound show ?thesis by simp
qed

theorem create_batches_chunk_bound_witness:
  "(0::nat) < 2 \<and> [[1::int], [2], [3], [4], [5]] \<noteq> []
     \<and> (\<exists>chunks. create_batches 2 [[1::int], [2], [3], [4], [5]] = Inr chunks
           \<and> length chunks = max GPU_COUNT (chunks_needed 2 (length [[1::int], [2], [3], [4], [5]]))
           \<and> chunks_needed 2 (length [[1::int], [2], [3], [4], [5]])
               = length [[1::int], [2], [3], [4], [5]] div 2
                  + (if 2 dvd length [[1::int], [2], [3], [4], [5]]
                        \<and> 2 \<le> length [[1::int], [2], [3], [4], [5]] then 0 else 1)
           \<and> list_all (\<lambda>c. length c \<le> 2) chunks)"
  using create_batches_chunk_bound [of 2 "[[1::int], [2], [3], [4], [5]]"]
  by simp

section \<open>The readiness loop\<close>

text \<open>
  The loop leaves at the latest in the first iteration in which the probe returns and
  either reports the server ready or finds more than \<open>TIMEOUT\<close> seconds passed.
\<close>

lemma wait_for_server_exits:
  assumes "probe j = Returns ready" and "ready \<or> clock j - server_start > TIMEOUT"
    and "i \<le> j"
  shows "\<exists>r. wait_for_server probe clock server_start i = Some r"
  using assms(3)
proof (induction "j - i" arbitrary: i)
  case 0
  then have "i = j" by simp
  with assms(1,2) show ?case
    by (subst wait_for_server.simps) auto
next
  case (Suc d)
  then have next_le: "Suc i \<le> j" and d: "d = j - Suc i" by simp_all
  from Suc.hyps(1) [OF d next_le]
  obtain r where r: "wait_for_server probe clock server_start (Suc i) = Some r" ..
  show ?case
  proof (cases "probe i")
    case (Returns ready')
    with r show ?thesis
      by (subst wait_for_server.simps) auto
  next
    case RaisesInferenceServerException
    with r show ?thesis
      by (subst wait_for_server.simps) auto
  next
    case RaisesOther
    then show ?thesis
      by (subst wait_for_server.simps) auto
  qed
qed

lemma wait_for_server_returns_probe:
  assumes "wait_for_server probe clock server_start i = Some r"
  shows "\<exists>j. probe j \<noteq> RaisesInferenceServerException"
proof (rule wait_for_server.raw_induct
    [where P = "\<lambda>probe clock server_start i r. \<exists>j. probe j \<noteq> RaisesInferenceServerException",
     OF _ assms])
  fix f :: "(nat \<Rightarrow> probe_result) \<Rightarrow> (nat \<Rightarrow> real) \<Rightarrow> real \<Rightarrow> nat \<Rightarrow> (py_error + nat) option"
  fix probe clock server_start i r
  assume IH: "\<And>probe clock server_start i r.
      f probe clock server_start i = Some r \<Longrightarrow> \<exists>j. probe j \<noteq> RaisesInferenceServerException"
  assume step: "(case probe i of
        Returns ready \<Rightarrow>
          if ready \<or> clock i - server_start > TIMEOUT then Some (Inr i)
          else f probe clock server_start (Suc i)
      | RaisesInferenceServerException \<Rightarrow> f probe clock server_start (Suc i)
      | RaisesOther \<Rightarrow> Some (Inl UncaughtException)) = Some r"
  show "\<exists>j. probe j \<noteq> RaisesInferenceServerException"
  proof (cases "probe i")
    case (Returns ready)
    then show ?thesis by (metis probe_result.distinct(1))
  next
    case RaisesInferenceServerException
    with step have "f probe clock server_start (Suc i) = Some r" by simp
    then show ?thesis by (rule IH)
  next
    case RaisesOther
    then show ?thesis by (metis probe_result.distinct(5))
  qed
qed

text \<open>
  Claim C1. The loop is to leave once the server is ready or once \<open>TIMEOUT\<close> seconds
  have passed. When every call of the readiness probe raises InferenceServerException
  (the server never comes up), the exception is caught before the clock is compared,
  in every iteration, and the loop never leaves, whatever the clock reads.
\<close>

theorem wait_for_server_never_exits:
  "wait_for_server (\<lambda>i. RaisesInferenceServerException) clock server_start 0 = None"
proof (cases "wait_for_server (\<lambda>i. RaisesInferenceServerException) clock server_start 0")
  case None
  then show ?thesis .
next
  case (Some r)
  then have "\<exists>j::nat. RaisesInferenceServerException \<noteq> RaisesInferenceServerException"
    by (rule wait_for_server_returns_probe)
  then show ?thesis by simp
qed

text \<open>
  The loop does leave when the probe answers: at the first ready answer, or at the
  first answer that finds more than \<open>TIMEOUT\<close> seconds passed.
\<close>

lemma wait_for_server_runs:
  "wait_for_server (\<lambda>i. if i < 2 then RaisesInferenceServerException else Returns (i = 3))
     (\<lambda>i. 100 + real i) 100 0 = Some (Inr 3)"
  by (simp add: wait_for_server.simps TIMEOUT_def)

lemma wait_for_server_times_out:
  "wait_for_server (\<lambda>i. Returns False) (\<lambda>i. 100 + 31 * real i) 100 0 = Some (Inr 2)"
  by (simp add: wait_for_server.simps TIMEOUT_def)

section \<open>The text of the configuration file\<close>

lemma digit_not_newline: "k < 10 \<Longrightarrow> ''0123456789'' ! k \<noteq> CHR ''\<newline>''"
proof -
  assume "k < 10"
  then have "k \<in> {0, 1, 2, 3, 4, 5, 6, 7, 8, 9}" by auto
  then show ?thesis by auto
qed

lemma str_nat_no_newline: "CHR ''\<newline>'' \<notin> set (str_nat n)"
proof (induction n rule: str_nat.induct)
  case (1 n)
  show ?case
  proof (cases "n < 10")
    case True
    then show ?thesis
      using digit_not_newline [of n] by (subst str_nat.simps) auto
  next
    case False
    have "n mod 10 < 10" by simp
    then show ?thesis
      using False 1 digit_not_newline [of "n mod 10"] by (subst str_nat.simps) auto
  qed
qed

lemma split_lines_not_Nil: "split_lines s \<noteq> []"
  by (cases s) (simp_all add: split_lines.simps split: list.splits)

lemma split_lines_no_newline:
  "CHR ''\<newline>'' \<notin> set s \<Longrightarrow> split_lines s = [s]"
  by (induction s) (auto simp: split_lines.simps)

lemma split_lines_append:
  "split_lines (a @ CHR ''\<newline>'' # b) = split_lines a @ split_lines b"
proof (induction a)
  case Nil
  show ?case by (simp add: split_lines.simps)
next
  case (Cons c a)
  obtain l ls where a: "split_lines a = l # ls"
    using split_lines_not_Nil [of a] by (cases "split_lines a") auto
  show ?case
    using Cons a by (simp add: split_lines.simps)
qed

lemma split_lines_join_lines:
  "ls \<noteq> [] \<Longrightarrow> split_lines (join_lines ls) = concat (map split_lines ls)"
proof (induction ls rule: join_lines.induct)
  case 1
  then show ?case by simp
next
  case (2 l)
  show ?case by simp
next
  case (3 l v va)
  then show ?case by (simp add: split_lines_append)
qed

lemma lower_char_c: "lower_char x = CHR ''c'' \<longleftrightarrow> x = CHR ''c'' \<or> x = CHR ''C''"
  by (auto simp: lower_char_def split: if_splits)

lemma lower_char_p: "lower_char x = CHR ''p'' \<longleftrightarrow> x = CHR ''p'' \<or> x = CHR ''P''"
  by (auto simp: lower_char_def split: if_splits)

lemma lower_char_u: "lower_char x = CHR ''u'' \<longleftrightarrow> x = CHR ''u'' \<or> x = CHR ''U''"
  by (auto simp: lower_char_def split: if_splits)

lemma lower_cpu:
  "lower s = ''cpu'' \<longleftrightarrow>
     s \<in> {''cpu'', ''cpU'', ''cPu'', ''cPU'', ''Cpu'', ''CpU'', ''CPu'', ''CPU''}"
proof -
  have "lower s = ''cpu'' \<longleftrightarrow>
          (\<exists>a b c. s = [a, b, c] \<and> lower_char a = CHR ''c'' \<and> lower_char b = CHR ''p''
             \<and> lower_char c = CHR ''u'')"
    by (auto simp: lower_def map_eq_Cons_conv)
  then show ?thesis
    unfolding lower_char_c lower_char_p lower_char_u by auto
qed


lemma instance_kind_of_cases:
  "instance_kind_of deployment_type =
     (if deployment_type \<in> {''cpu'', ''cpU'', ''cPu'', ''cPU'', ''Cpu'', ''CpU'', ''CPu'', ''CPU''}
      then ''KIND_CPU'' else ''KIND_GPU'')"
  unfolding instance_kind_of_def lower_cpu ..

lemma instance_kind_of_no_newline: "CHR ''\<newline>'' \<notin> set (instance_kind_of deployment_type)"
  by (simp add: instance_kind_of_def)

lemma config_lines_not_Nil: "config_lines mbs features num_classes kind storage_type \<noteq> []"
  by (simp add: config_lines_def)

lemma config_text_lines:
  \<open>split_lines (config_text mbs features num_classes deployment_type storage_type) =
     take 36 (config_lines mbs features num_classes (instance_kind_of deployment_type) storage_type)
     @ split_lines (''    value: { string_value: "'' @ storage_type @ ''" }'')
     @ drop 37 (config_lines mbs features num_classes (instance_kind_of deployment_type) storage_type)\<close>
  unfolding config_text_def
  by (simp add: split_lines_join_lines config_lines_not_Nil)
    (simp add: config_lines_def split_lines_no_newline str_nat_no_newline
       instance_kind_of_no_newline)


lemma config_text_kind_line:
  "split_lines (config_text mbs features num_classes deployment_type storage_type) ! 16
     = ''instance_group [{ kind: '' @ instance_kind_of deployment_type @ '' }]''"
  by (simp add: config_text_lines) (simp add: config_lines_def)

lemma config_text_lines_plain:
  assumes "CHR ''\<newline>'' \<notin> set storage_type"
  shows "split_lines (config_text mbs features num_classes deployment_type storage_type)
           = config_lines mbs features num_classes (instance_kind_of deployment_type) storage_type"
proof -
  have \<open>split_lines (''    value: { string_value: "'' @ storage_type @ ''" }'')
          = [''    value: { string_value: "'' @ storage_type @ ''" }'']\<close>
    using assms by (intro split_lines_no_newline) simp
  then show ?thesis
    by (simp add: config_text_lines) (simp add: config_lines_def)
qed

lemma config_lines_kind:
  "''instance_group [{ kind: '' @ kind @ '' }]''
     \<in> set (config_lines mbs features num_classes kind' storage_type) \<longleftrightarrow> kind = kind'"
  by (auto simp: config_lines_def)

lemma config_text_max_batch_size:
  "contains_line (config_text mbs features num_classes deployment_type storage_type)
     (''max_batch_size: '' @ str_nat mbs)"
  unfolding contains_line_def
  by (simp add: config_text_lines) (simp add: config_lines_def)

lemma config_text_input:
  \<open>contains_block (config_text mbs features num_classes deployment_type storage_type)
     [''    name: "input__0"'',
      ''    data_type: TYPE_FP32'',
      ''    dims: [ '' @ str_nat features @ '' ]                    '']\<close>
  unfolding contains_block_def sublist_def
  by (rule exI [of _ "take 4 (config_lines mbs features num_classes
                         (instance_kind_of deployment_type) storage_type)"])
     (simp add: config_text_lines, simp add: config_lines_def)

lemma config_text_output:
  \<open>contains_block (config_text mbs features num_classes deployment_type storage_type)
     [''    name: "output__0"'',
      ''    data_type: TYPE_FP32'',
      ''    dims: [ '' @ str_nat num_classes @ '' ]'']\<close>
  unfolding contains_block_def sublist_def
  by (rule exI [of _ "take 11 (config_lines mbs features num_classes
                         (instance_kind_of deployment_type) storage_type)"])
     (simp add: config_text_lines, simp add: config_lines_def)

lemma config_text_model_type:
  \<open>contains_block (config_text mbs features num_classes deployment_type storage_type)
     [''    key: "model_type"'',
      ''    value: { string_value: "xgboost_json" }'']\<close>
  unfolding contains_block_def sublist_def
  by (rule exI [of _ "take 19 (config_lines mbs features num_classes
                         (instance_kind_of deployment_type) storage_type)"])
     (simp add: config_text_lines, simp add: config_lines_def)

lemma config_text_dynamic_batching:
  \<open>contains_block (config_text mbs features num_classes deployment_type storage_type)
     [''dynamic_batching {'',
      ''  max_queue_delay_microseconds: 100'',
      ''}'']\<close>
  unfolding contains_block_def
proof -
  let ?L = "config_lines mbs features num_classes (instance_kind_of deployment_type) storage_type"
  have \<open>split_lines (config_text mbs features num_classes deployment_type storage_type)
          = (take 36 ?L
             @ split_lines (''    value: { string_value: "'' @ storage_type @ ''" }'')
             @ take 3 (drop 37 ?L))
            @ [''dynamic_batching {'', ''  max_queue_delay_microseconds: 100'', ''}'']\<close>
    by (simp add: config_text_lines) (simp add: config_lines_def)
  then show \<open>sublist [''dynamic_batching {'', ''  max_queue_delay_microseconds: 100'', ''}'']
               (split_lines (config_text mbs features num_classes deployment_type storage_type))\<close>
    by (simp only: sublist_append_leftI)
qed


text \<open>
  Claim C3, as amended. With \<open>max_batch_size\<close> computed from \<open>features\<close> and
  \<open>num_classes\<close>, for every deployment type and storage type: the instance group line
  that \<open>generate_config\<close> writes (the 17th line of the text) has kind \<open>KIND_CPU\<close> when
  the deployment type is \<open>cpu\<close> in any mix of cases and \<open>KIND_GPU\<close> otherwise; when the
  storage type has no line break, the text contains the \<open>KIND_CPU\<close> instance group line
  if and only if the deployment type is \<open>cpu\<close> in any mix of cases, and the \<open>KIND_GPU\<close>
  line if and only if it is not; and the text always contains \<open>max_batch_size\<close> equal
  to \<open>MAX_MEMORY_BYTES // ((features + num_classes) * 4)\<close>, the input tensor
  \<open>input__0\<close> of type \<open>TYPE_FP32\<close> with dims \<open>[features]\<close>, the output tensor \<open>output__0\<close>
  with dims \<open>[num_classes]\<close>, the model type \<open>xgboost_json\<close>, and the dynamic batching
  block with a queue delay of 100 microseconds.
\<close>

theorem config_text_contents:
  assumes "max_batch_size features num_classes = Inr mbs"
  shows \<open>split_lines (config_text mbs features num_classes deployment_type storage_type) ! 16
           = (if deployment_type
                   \<in> {''cpu'', ''cpU'', ''cPu'', ''cPU'', ''Cpu'', ''CpU'', ''CPu'', ''CPU''}
              then ''instance_group [{ kind: KIND_CPU }]''
              else ''instance_group [{ kind: KIND_GPU }]'')
         \<and> (CHR ''\<newline>'' \<notin> set storage_type \<longrightarrow>
               (contains_line (config_text mbs features num_classes deployment_type storage_type)
                   ''instance_group [{ kind: KIND_CPU }]''
                 \<longleftrightarrow> deployment_type
                       \<in> {''cpu'', ''cpU'', ''cPu'', ''cPU'', ''Cpu'', ''CpU'', ''CPu'', ''CPU''})
             \<and> (contains_line (config_text mbs features num_classes deployment_type storage_type)
                   ''instance_group [{ kind: KIND_GPU }]''
                 \<longleftrightarrow> deployment_type
                       \<notin> {''cpu'', ''cpU'', ''cPu'', ''cPU'', ''Cpu'', ''CpU'', ''CPu'', ''CPU''}))
         \<and> contains_line (config_text mbs features num_classes deployment_type storage_type)
               (''max_batch_size: ''
                  @ str_nat (MAX_MEMORY_BYTES div ((features + num_classes) * 4)))
         \<and> contains_block (config_text mbs features num_classes deployment_type storage_type)
               [''    name: "input__0"'',
                ''    data_type: TYPE_FP32'',
                ''    dims: [ '' @ str_nat features @ '' ]                    '']
         \<and> contains_block (config_text mbs features num_classes deployment_type storage_type)
               [''    name: "output__0"'',
                ''    data_type: TYPE_FP32'',
                ''    dims: [ '' @ str_nat num_classes @ '' ]'']
         \<and> contains_block (config_text mbs features num_classes deployment_type storage_type)
               [''    key: "model_type"'',
                ''    value: { string_value: "xgboost_json" }'']
         \<and> contains_block (config_text mbs features num_classes deployment_type storage_type)
               [''dynamic_batching {'',
                ''  max_queue_delay_microseconds: 100'',
                ''}'']\<close>
proof -
  let ?text = "config_text mbs features num_classes deployment_type storage_type"
  let ?S = "{''cpu'', ''cpU'', ''cPu'', ''cPU'', ''Cpu'', ''CpU'', ''CPu'', ''CPU''}"
  have mbs: "mbs = MAX_MEMORY_BYTES div ((features + num_classes) * 4)"
    using assms by (simp add: max_batch_size_def bytes_per_sample_def split: if_splits)
  have kind: "split_lines ?text ! 16
                = (if deployment_type \<in> ?S then ''instance_group [{ kind: KIND_CPU }]''
                   else ''instance_group [{ kind: KIND_GPU }]'')"
    unfolding config_text_kind_line instance_kind_of_cases by simp
  have only: "(contains_line ?text ''instance_group [{ kind: KIND_CPU }]''
                 \<longleftrightarrow> deployment_type \<in> ?S)
              \<and> (contains_line ?text ''instance_group [{ kind: KIND_GPU }]''
                 \<longleftrightarrow> deployment_type \<notin> ?S)"
    if "CHR ''\<newline>'' \<notin> set storage_type"
  proof -
    have cpu: "contains_line ?text (''instance_group [{ kind: '' @ ''KIND_CPU'' @ '' }]'')
                 \<longleftrightarrow> ''KIND_CPU'' = instance_kind_of deployment_type"
      unfolding contains_line_def config_text_lines_plain [OF that]
      by (rule config_lines_kind)
    have gpu: "contains_line ?text (''instance_group [{ kind: '' @ ''KIND_GPU'' @ '' }]'')
                 \<longleftrightarrow> ''KIND_GPU'' = instance_kind_of deployment_type"
      unfolding contains_line_def config_text_lines_plain [OF that]
      by (rule config_lines_kind)
    from cpu gpu show ?thesis
      unfolding instance_kind_of_cases by simp
  qed
  have size: "contains_line ?text
                (''max_batch_size: '' @ str_nat (MAX_MEMORY_BYTES div ((features + num_classes) * 4)))"
    using config_text_max_batch_size [of mbs] unfolding mbs .
  from kind only size config_text_input config_text_output config_text_model_type
    config_text_dynamic_batching
  show ?thesis by blast
qed

theorem config_text_contents_witness:
  \<open>max_batch_size 400 2 = Inr 37313
    \<and> CHR ''\<newline>'' \<notin> set ''AUTO''
    \<and> contains_line (config_text 37313 400 2 ''CPU'' ''AUTO'')
          ''instance_group [{ kind: KIND_CPU }]''
    \<and> \<not> contains_line (config_text 37313 400 2 ''CPU'' ''AUTO'')
          ''instance_group [{ kind: KIND_GPU }]''\<close>
proof -
  have h: "max_batch_size 400 2 = Inr 37313"
    by (simp add: max_batch_size_def bytes_per_sample_def MAX_MEMORY_BYTES_def)
  have n: "CHR ''\<newline>'' \<notin> set ''AUTO''" by simp
  from config_text_contents [OF h, of "''CPU''" "''AUTO''"] h n show ?thesis
    by simp
qed

text \<open>
  Claim C3 as stated, for every storage type, fails: the storage type is written into
  the text as it is, and one that closes its own entry and opens an instance group
  puts a \<open>KIND_CPU\<close> instance group line into the text of a GPU deployment.
\<close>

theorem config_text_injected_instance_group:
  \<open>contains_line
      (config_text 37313 400 2 ''gpu''
         ''AUTO" }\<newline>  }\<newline>]\<newline>instance_group [{ kind: KIND_CPU }]\<newline>parameters [\<newline>  {\<newline>    key: "x"\<newline>    value: { string_value: "y'')
      ''instance_group [{ kind: KIND_CPU }]''
    \<and> lower ''gpu'' \<noteq> ''cpu''\<close>
proof -
  have "lower ''gpu'' \<noteq> ''cpu''"
    by (simp add: lower_def lower_char_def)
  moreover have \<open>''instance_group [{ kind: KIND_CPU }]''
      \<in> set (split_lines (''    value: { string_value: "'' @ ''AUTO" }\<newline>  }\<newline>]\<newline>instance_group [{ kind: KIND_CPU }]\<newline>parameters [\<newline>  {\<newline>    key: "x"\<newline>    value: { string_value: "y'' @ ''" }''))\<close>
    by (simp add: split_lines.simps)
  ultimately show ?thesis
    unfolding contains_line_def config_text_lines by simp
qed

section \<open>The calls of the trainer\<close>

text \<open>
  Claim C5. The notebook calls the trainer exactly twice, through \<open>train_model\<close>: first
  with 500 trees of depth 3 (the small model), then with 5000 trees of depth 12 (the
  large model). Both calls use the objective \<open>binary:logistic\<close> and the evaluation
  metric \<open>aucpr\<close>, the two calls differ, and they differ in nothing but the number of
  trees and the depth.
\<close>

theorem train_models_calls:
  "\<exists>small_model large_model.
     train_models USE_CATEGORICAL X_train y_train X_test y_test
       = (small_model, large_model, [small_model, large_model])
     \<and> n_estimators (classifier small_model) = 500
     \<and> max_depth (classifier small_model) = 3
     \<and> n_estimators (classifier large_model) = 5000
     \<and> max_depth (classifier large_model) = 12
     \<and> objective (classifier small_model) = ''binary:logistic''
     \<and> eval_metric (classifier small_model) = ''aucpr''
     \<and> objective (classifier large_model) = ''binary:logistic''
     \<and> eval_metric (classifier large_model) = ''aucpr''
     \<and> small_model \<noteq> large_model
     \<and> large_model
         = small_model\<lparr>classifier :=
             (classifier small_model)\<lparr>max_depth := 12, n_estimators := 5000\<rparr>\<rparr>"
  by (simp add: train_models_def train_model_def Let_def)

section \<open>Replacing the missing values\<close>

lemma fill_no_missing: "None \<notin> set (fill v xs)"
  by (auto simp: fill_def split: option.splits)

lemma fill_complete: "None \<notin> set xs \<Longrightarrow> fill v xs = xs"
proof (induction xs)
  case Nil
  show ?case by (simp add: fill_def)
next
  case (Cons a xs)
  then obtain y where "a = Some y" by (cases a) auto
  with Cons show ?case by (simp add: fill_def)
qed

lemma update_existing:
  assumes "distinct (map fst data)" and "n \<in> fst ` set data"
  shows "AList.update n c data = map (\<lambda>(k, x). (k, if k = n then c else x)) data"
  using assms
proof (induction data)
  case Nil
  then show ?case by simp
next
  case (Cons p data)
  obtain k x where p: "p = (k, x)" by (cases p)
  show ?case
  proof (cases "k = n")
    case True
    with Cons.prems p have "n \<notin> fst ` set data" by auto
    then have "map (\<lambda>(k, x). (k, if k = n then c else x)) data = data"
      by (induction data) auto
    with True p show ?thesis by simp
  next
    case False
    with Cons p show ?thesis by auto
  qed
qed

lemma setitem_columns_map:
  assumes "distinct (map fst data)" and "fst ` set v \<subseteq> fst ` set data"
    and "distinct (map fst v)"
  shows "setitem_columns data v
           = map (\<lambda>(k, x). (k, case map_of v k of Some c \<Rightarrow> c | None \<Rightarrow> x)) data"
  using assms
proof (induction v arbitrary: data)
  case Nil
  then show ?case by simp
next
  case (Cons p v)
  obtain n c where p: "p = (n, c)" by (cases p)
  let ?d = "AList.update n c data"
  have up: "?d = map (\<lambda>(k, x). (k, if k = n then c else x)) data"
    using Cons.prems p by (intro update_existing) auto
  have keys: "map fst ?d = map fst data"
    unfolding up by (simp add: case_prod_unfold comp_def)
  have "setitem_columns ?d v
          = map (\<lambda>(k, x). (k, case map_of v k of Some c \<Rightarrow> c | None \<Rightarrow> x)) ?d"
  proof (rule Cons.IH)
    show "distinct (map fst ?d)" using keys Cons.prems(1) by simp
    have "fst ` set ?d = fst ` set data"
      using keys by (metis list.set_map)
    then show "fst ` set v \<subseteq> fst ` set ?d" using Cons.prems(2) by auto
    show "distinct (map fst v)" using Cons.prems(3) by simp
  qed
  also have "\<dots> = map (\<lambda>(k, x). (k, case map_of (p # v) k of Some c \<Rightarrow> c | None \<Rightarrow> x)) data"
  proof -
    have "n \<notin> fst ` set v" using Cons.prems(3) p by auto
    then have "map_of v n = None" by (simp add: map_of_eq_None_iff)
    then show ?thesis
      unfolding up p by (auto simp: case_prod_unfold split: option.splits)
  qed
  finally show ?case using p by simp
qed


lemma setitem_columns_selected:
  assumes "distinct (map fst data)" and "distinct (map fst v)"
    and "fst ` set v \<subseteq> fst ` set data"
    and "\<And>k x. (k, x) \<in> set data \<Longrightarrow> sel x \<Longrightarrow> (k, g x) \<in> set v"
    and "\<And>k x. (k, x) \<in> set data \<Longrightarrow> \<not> sel x \<Longrightarrow> k \<notin> fst ` set v"
  shows "setitem_columns data v = map (\<lambda>(k, x). (k, if sel x then g x else x)) data"
proof -
  have "map (\<lambda>(k, x). (k, case map_of v k of Some c \<Rightarrow> c | None \<Rightarrow> x)) data
          = map (\<lambda>(k, x). (k, if sel x then g x else x)) data"
  proof (rule map_cong [OF refl])
    fix p assume p: "p \<in> set data"
    obtain k x where kx: "p = (k, x)" by (cases p)
    show "(case p of (k, x) \<Rightarrow> (k, case map_of v k of Some c \<Rightarrow> c | None \<Rightarrow> x))
            = (case p of (k, x) \<Rightarrow> (k, if sel x then g x else x))"
    proof (cases "sel x")
      case True
      with p kx assms(4) have "(k, g x) \<in> set v" by simp
      with assms(2) have "map_of v k = Some (g x)" by (rule map_of_is_SomeI)
      with True kx show ?thesis by simp
    next
      case False
      with p kx assms(5) have "k \<notin> fst ` set v" by simp
      then have "map_of v k = None" by (simp add: map_of_eq_None_iff)
      with False kx show ?thesis by simp
    qed
  qed
  with setitem_columns_map [OF assms(1) assms(3) assms(2)] show ?thesis by simp
qed

lemma in_float64_subset: "(n, xs) \<in> set (float64_subset t) \<longleftrightarrow> (n, Float64 xs) \<in> set t"
  by (induction t rule: float64_subset.induct) auto

lemma in_object_subset: "(n, xs) \<in> set (object_subset t) \<longleftrightarrow> (n, Object xs) \<in> set t"
  by (induction t rule: object_subset.induct) auto

lemma keys_float64_subset_filter:
  "map fst (float64_subset t)
     = map fst (filter (\<lambda>(n, c). case c of Float64 xs \<Rightarrow> True | _ \<Rightarrow> False) t)"
  by (induction t rule: float64_subset.induct) simp_all

lemma keys_object_subset_filter:
  "map fst (object_subset t)
     = map fst (filter (\<lambda>(n, c). case c of Object xs \<Rightarrow> True | _ \<Rightarrow> False) t)"
  by (induction t rule: object_subset.induct) simp_all

lemma distinct_float64_subset:
  "distinct (map fst t) \<Longrightarrow> distinct (map fst (float64_subset t))"
  unfolding keys_float64_subset_filter by (rule distinct_map_filter)

lemma distinct_object_subset:
  "distinct (map fst t) \<Longrightarrow> distinct (map fst (object_subset t))"
  unfolding keys_object_subset_filter by (rule distinct_map_filter)

lemma distinct_key_unique:
  assumes "distinct (map fst t)" and "(k, x) \<in> set t" and "(k, y) \<in> set t"
  shows "x = y"
  using assms by (rule eq_key_imp_eq_value)

lemma select_nan_columns:
  assumes "distinct (map fst data)"
  shows "select_columns data (nan_columns data) = filter (\<lambda>(n, c). isna_any c) data"
  unfolding select_columns_def
proof (rule filter_cong [OF refl])
  fix p assume p: "p \<in> set data"
  obtain k x where kx: "p = (k, x)" by (cases p)
  have "k \<in> set (nan_columns data) \<longleftrightarrow> isna_any x"
  proof
    assume "k \<in> set (nan_columns data)"
    then obtain y where y: "(k, y) \<in> set data" "isna_any y"
      by (auto simp: nan_columns_def)
    from assms have "x = y"
    proof (rule distinct_key_unique)
      show "(k, x) \<in> set data" using p kx by simp
      show "(k, y) \<in> set data" by (rule y(1))
    qed
    with y show "isna_any x" by simp
  next
    assume "isna_any x"
    with p kx show "k \<in> set (nan_columns data)"
      by (force simp: nan_columns_def)
  qed
  with kx show "(case p of (n, c) \<Rightarrow> n \<in> set (nan_columns data))
                  = (case p of (n, c) \<Rightarrow> isna_any c)"
    by simp
qed


lemma impute_floats:
  assumes d: "distinct (map fst data)"
    and ex: "(n0, Float64 xs0) \<in> set data" "None \<in> set xs0"
    and obs: "\<forall>n xs. (n, Float64 xs) \<in> set data \<and> None \<in> set xs \<longrightarrow> observed xs \<noteq> []"
  shows "\<exists>imputed.
           fit_transform median (float64_subset (select_columns data (nan_columns data)))
             = Inr imputed
         \<and> setitem_columns data (map (\<lambda>(n, xs). (n, Float64 xs)) imputed)
             = map (\<lambda>(n, c). (n, case c of
                                    Float64 xs \<Rightarrow> Float64 (fill (median (observed xs)) xs)
                                  | Object xs \<Rightarrow> Object xs
                                  | Int64 xs \<Rightarrow> Int64 xs)) data"
proof -
  let ?F = "float64_subset (select_columns data (nan_columns data))"
  let ?imputed = "map (\<lambda>(n, xs). (n, fill (median (observed xs)) xs)) ?F"
  let ?V = "map (\<lambda>(n, xs). (n, Float64 xs)) ?imputed"
  let ?sel = "\<lambda>c. case c of Float64 xs \<Rightarrow> None \<in> set xs | Object xs \<Rightarrow> False | Int64 xs \<Rightarrow> False"
  let ?g = "\<lambda>c. case c of Float64 xs \<Rightarrow> Float64 (fill (median (observed xs)) xs)
                  | Object xs \<Rightarrow> Object xs | Int64 xs \<Rightarrow> Int64 xs"
  have F_mem: "(n, xs) \<in> set ?F \<longleftrightarrow> (n, Float64 xs) \<in> set data \<and> None \<in> set xs" for n xs
    by (simp add: select_nan_columns [OF d] in_float64_subset)
  have F_ne: "?F \<noteq> []"
    using F_mem [of n0 xs0] ex by auto
  have F_obs: "\<not> list_ex (\<lambda>(n, xs). observed xs = []) ?F"
    using F_mem obs by (auto simp: list_ex_iff)
  have ft: "fit_transform median ?F = Inr ?imputed"
    using F_ne F_obs by (simp add: fit_transform_def)
  have keysV: "map fst ?V = map fst ?F"
    by (simp add: case_prod_unfold comp_def)
  have dF: "distinct (map fst ?F)"
    using d by (intro distinct_float64_subset) (simp add: select_columns_def distinct_map_filter)
  have dV: "distinct (map fst ?V)"
    unfolding keysV by (rule dF)
  have "fst ` set ?F \<subseteq> fst ` set data"
    using F_mem by force
  then have subV: "fst ` set ?V \<subseteq> fst ` set data"
    using keysV by (metis list.set_map)
  have inV: "(k, ?g x) \<in> set ?V" if "(k, x) \<in> set data" "?sel x" for k x
  proof -
    from that(2) obtain xs where x: "x = Float64 xs" "None \<in> set xs"
      by (cases x) auto
    with that(1) have "(k, xs) \<in> set ?F" by (simp add: F_mem)
    then have "(\<lambda>(n, xs). (n, Float64 (fill (median (observed xs)) xs))) (k, xs) \<in> set ?V"
      by (force simp: case_prod_unfold)
    with x show ?thesis by simp
  qed
  have outV: "k \<notin> fst ` set ?V" if "(k, x) \<in> set data" "\<not> ?sel x" for k x
  proof
    assume "k \<in> fst ` set ?V"
    then have "k \<in> fst ` set ?F" using keysV by (metis list.set_map)
    then obtain xs where "(k, xs) \<in> set ?F" by auto
    then have xs: "(k, Float64 xs) \<in> set data" "None \<in> set xs" by (simp_all add: F_mem)
    from d that(1) xs(1) have "x = Float64 xs" by (rule distinct_key_unique)
    with xs(2) that(2) show False by simp
  qed
  have "setitem_columns data ?V = map (\<lambda>(k, x). (k, if ?sel x then ?g x else x)) data"
    using d dV subV inV outV by (rule setitem_columns_selected)
  also have "\<dots> = map (\<lambda>(n, c). (n, ?g c)) data"
  proof (rule map_cong [OF refl])
    fix p assume "p \<in> set data"
    obtain k x where kx: "p = (k, x)" by (cases p)
    have "(if ?sel x then ?g x else x) = ?g x"
      by (cases x) (simp_all add: fill_complete)
    with kx show "(case p of (k, x) \<Rightarrow> (k, if ?sel x then ?g x else x))
                    = (case p of (n, c) \<Rightarrow> (n, ?g c))"
      by simp
  qed
  finally show ?thesis using ft by blast
qed


lemma fill_objects:
  fixes g :: "'f column \<Rightarrow> 'f column"
  assumes d: "distinct (map fst data)"
    and g_obj: "\<And>c xs. g c = Object xs \<longleftrightarrow> c = Object xs"
  shows "setitem_columns (map (\<lambda>(n, c). (n, g c)) data)
           (map (\<lambda>(n, xs). (n, Object xs))
              (fillna v (object_subset
                 (select_columns (map (\<lambda>(n, c). (n, g c)) data) (nan_columns data)))))
         = map (\<lambda>(n, c). (n, case c of
                                Float64 xs \<Rightarrow> Float64 xs
                              | Object xs \<Rightarrow> Object (fill v xs)
                              | Int64 xs \<Rightarrow> Int64 xs)) (map (\<lambda>(n, c). (n, g c)) data)"
proof -
  let ?data1 = "map (\<lambda>(n, c). (n, g c)) data"
  let ?O = "object_subset (select_columns ?data1 (nan_columns data))"
  let ?V = "map (\<lambda>(n, xs). (n, Object xs)) (fillna v ?O)"
  let ?sel = "\<lambda>c. case c of Float64 xs \<Rightarrow> False | Object xs \<Rightarrow> None \<in> set xs | Int64 xs \<Rightarrow> False"
  let ?h = "\<lambda>c. case c of Float64 xs \<Rightarrow> Float64 xs | Object xs \<Rightarrow> Object (fill v xs)
                  | Int64 xs \<Rightarrow> Int64 xs"
  have keys1: "map fst ?data1 = map fst data"
    by (simp add: case_prod_unfold comp_def)
  have d1: "distinct (map fst ?data1)"
    unfolding keys1 by (rule d)
  have mem1: "(k, Object xs) \<in> set ?data1 \<longleftrightarrow> (k, Object xs) \<in> set data" for k xs
  proof
    assume "(k, Object xs) \<in> set ?data1"
    then obtain c where c: "(k, c) \<in> set data" "g c = Object xs" by auto
    from c(2) have "c = Object xs" by (simp only: g_obj)
    with c(1) show "(k, Object xs) \<in> set data" by simp
  next
    assume a: "(k, Object xs) \<in> set data"
    have "g (Object xs) = Object xs" by (simp only: g_obj)
    with a show "(k, Object xs) \<in> set ?data1" by force
  qed
  have nan_obj: "k \<in> set (nan_columns data) \<longleftrightarrow> None \<in> set xs"
    if "(k, Object xs) \<in> set data" for k xs
  proof
    assume "k \<in> set (nan_columns data)"
    then obtain y where y: "(k, y) \<in> set data" "isna_any y"
      by (auto simp: nan_columns_def)
    from d that y(1) have "Object xs = y" by (rule distinct_key_unique)
    with y(2) show "None \<in> set xs" by auto
  next
    assume "None \<in> set xs"
    with that show "k \<in> set (nan_columns data)"
      by (force simp: nan_columns_def)
  qed
  have O_mem: "(k, xs) \<in> set ?O \<longleftrightarrow> (k, Object xs) \<in> set data \<and> None \<in> set xs" for k xs
  proof -
    have "(k, xs) \<in> set ?O \<longleftrightarrow> (k, Object xs) \<in> set ?data1 \<and> k \<in> set (nan_columns data)"
      by (simp add: in_object_subset select_columns_def)
    then show ?thesis
      using mem1 nan_obj by blast
  qed
  have keysV: "map fst ?V = map fst ?O"
    by (simp add: fillna_def case_prod_unfold comp_def)
  have "distinct (map fst ?O)"
    using d1 by (intro distinct_object_subset) (simp add: select_columns_def distinct_map_filter)
  then have dV: "distinct (map fst ?V)"
    unfolding keysV .
  have "fst ` set ?O \<subseteq> fst ` set data"
    using O_mem by force
  then have "fst ` set ?V \<subseteq> fst ` set data"
    using keysV by (metis list.set_map)
  then have subV: "fst ` set ?V \<subseteq> fst ` set ?data1"
    using keys1 by (metis list.set_map)
  have inV: "(k, ?h x) \<in> set ?V" if "(k, x) \<in> set ?data1" "?sel x" for k x
  proof -
    from that(2) obtain xs where x: "x = Object xs" "None \<in> set xs"
      by (cases x) auto
    with that(1) have "(k, Object xs) \<in> set data" by (simp only: mem1)
    with x(2) have "(k, xs) \<in> set ?O" by (simp only: O_mem)
    then have "(\<lambda>(n, xs). (n, Object (fill v xs))) (k, xs) \<in> set ?V"
      by (force simp: fillna_def case_prod_unfold)
    with x show ?thesis by simp
  qed
  have outV: "k \<notin> fst ` set ?V" if "(k, x) \<in> set ?data1" "\<not> ?sel x" for k x
  proof
    assume "k \<in> fst ` set ?V"
    then have "k \<in> fst ` set ?O" using keysV by (metis list.set_map)
    then obtain xs where "(k, xs) \<in> set ?O" by auto
    then have xs: "(k, Object xs) \<in> set data" "None \<in> set xs" by (simp_all only: O_mem)
    from xs(1) have "(k, Object xs) \<in> set ?data1" by (simp only: mem1)
    with d1 that(1) have "x = Object xs" by (rule distinct_key_unique)
    with xs(2) that(2) show False by simp
  qed
  have "setitem_columns ?data1 ?V = map (\<lambda>(k, x). (k, if ?sel x then ?h x else x)) ?data1"
    using d1 dV subV inV outV by (rule setitem_columns_selected)
  also have "\<dots> = map (\<lambda>(n, c). (n, ?h c)) ?data1"
  proof (rule map_cong [OF refl])
    fix p assume "p \<in> set ?data1"
    obtain k x where kx: "p = (k, x)" by (cases p)
    have "(if ?sel x then ?h x else x) = ?h x"
      by (cases x) (simp_all add: fill_complete)
    with kx show "(case p of (k, x) \<Rightarrow> (k, if ?sel x then ?h x else x))
                    = (case p of (n, c) \<Rightarrow> (n, ?h c))"
      by simp
  qed
  finally show ?thesis .
qed


lemma replace_nans_eq:
  assumes "distinct (map fst data)"
    and "(n0, Float64 xs0) \<in> set data" and "None \<in> set xs0"
    and "\<forall>n xs. (n, Float64 xs) \<in> set data \<and> None \<in> set xs \<longrightarrow> observed xs \<noteq> []"
  shows "replace_nans median data
           = Inr (map (\<lambda>(n, c). (n, case c of
                                    Float64 xs \<Rightarrow> Float64 (fill (median (observed xs)) xs)
                                  | Object xs \<Rightarrow> Object (fill ''UNKNOWN'' xs)
                                  | Int64 xs \<Rightarrow> Int64 xs)) data)"
proof -
  let ?g = "\<lambda>c. case c of Float64 xs \<Rightarrow> Float64 (fill (median (observed xs)) xs)
                  | Object xs \<Rightarrow> Object xs | Int64 xs \<Rightarrow> Int64 xs"
  let ?h = "\<lambda>c. case c of Float64 xs \<Rightarrow> Float64 xs | Object xs \<Rightarrow> Object (fill ''UNKNOWN'' xs)
                  | Int64 xs \<Rightarrow> Int64 xs"
  let ?r = "\<lambda>c. case c of Float64 xs \<Rightarrow> Float64 (fill (median (observed xs)) xs)
                  | Object xs \<Rightarrow> Object (fill ''UNKNOWN'' xs) | Int64 xs \<Rightarrow> Int64 xs"
  let ?data1 = "map (\<lambda>(n, c). (n, ?g c)) data"
  let ?data2 = "map (\<lambda>(n, c). (n, ?r c)) data"
  from impute_floats [OF assms(1) assms(2) assms(3) assms(4), where median = median]
  obtain imputed where
    ft: "fit_transform median (float64_subset (select_columns data (nan_columns data)))
           = Inr imputed"
    and s1: "setitem_columns data (map (\<lambda>(n, xs). (n, Float64 xs)) imputed) = ?data1"
    by blast
  have g_obj: "?g c = Object xs \<longleftrightarrow> c = Object xs" for c :: "'a column" and xs
    by (cases c) auto
  have s2: "setitem_columns ?data1
              (map (\<lambda>(n, xs). (n, Object xs))
                 (fillna ''UNKNOWN'' (object_subset (select_columns ?data1 (nan_columns data)))))
            = map (\<lambda>(n, c). (n, ?h c)) ?data1"
    using assms(1) g_obj by (rule fill_objects)
  have comp: "map (\<lambda>(n, c). (n, ?h c)) ?data1 = ?data2"
  proof -
    have "?h (?g c) = ?r c" for c :: "'a column"
      by (cases c) simp_all
    then show ?thesis by (simp add: case_prod_unfold comp_def)
  qed
  show "replace_nans median data = Inr ?data2"
    unfolding replace_nans_def Let_def ft by (simp only: sum.case s1 s2 comp)
qed

text \<open>
  Claim C6, as amended. For a table with distinct column names in which some float64
  column has a missing value and every float64 column with a missing value also has an
  observed one, the cell completes and changes the table column by column: each missing
  entry of a float64 column becomes the median of that column's observed values, each
  missing entry of an object column becomes the string \<open>UNKNOWN\<close>, and a column of any
  other dtype is left as it is. Afterwards no float64 or object column has a missing
  value, and every column that had none is unchanged.
\<close>

theorem replace_nans_result:
  assumes "distinct (map fst data)"
    and "(n0, Float64 xs0) \<in> set data" and "None \<in> set xs0"
    and "\<forall>n xs. (n, Float64 xs) \<in> set data \<and> None \<in> set xs \<longrightarrow> observed xs \<noteq> []"
  shows "\<exists>data'. replace_nans median data = Inr data'
           \<and> data' = map (\<lambda>(n, c). (n, case c of
                                    Float64 xs \<Rightarrow> Float64 (fill (median (observed xs)) xs)
                                  | Object xs \<Rightarrow> Object (fill ''UNKNOWN'' xs)
                                  | Int64 xs \<Rightarrow> Int64 xs)) data
           \<and> list_all (\<lambda>(n, c). case c of Float64 xs \<Rightarrow> None \<notin> set xs
                                  | Object xs \<Rightarrow> None \<notin> set xs
                                  | Int64 xs \<Rightarrow> True) data'
           \<and> list_all (\<lambda>(n, c). isna_any c \<or> (n, c) \<in> set data') data"
proof -
  let ?r = "\<lambda>c. case c of Float64 xs \<Rightarrow> Float64 (fill (median (observed xs)) xs)
                  | Object xs \<Rightarrow> Object (fill ''UNKNOWN'' xs) | Int64 xs \<Rightarrow> Int64 xs"
  let ?data2 = "map (\<lambda>(n, c). (n, ?r c)) data"
  have run: "replace_nans median data = Inr ?data2"
    using assms by (rule replace_nans_eq)
  have full: "list_all (\<lambda>(n, c). case c of Float64 xs \<Rightarrow> None \<notin> set xs
                                  | Object xs \<Rightarrow> None \<notin> set xs
                                  | Int64 xs \<Rightarrow> True) ?data2"
    by (auto simp: list_all_iff fill_no_missing split: column.splits)
  have same: "list_all (\<lambda>(n, c). isna_any c \<or> (n, c) \<in> set ?data2) data"
    unfolding list_all_iff
  proof
    fix p assume p: "p \<in> set data"
    obtain n c where nc: "p = (n, c)" by (cases p)
    have "(n, c) \<in> set ?data2" if "\<not> isna_any c"
    proof -
      from that have "?r c = c" by (cases c) (simp_all add: fill_complete)
      with p nc show ?thesis by force
    qed
    with nc show "case p of (n, c) \<Rightarrow> isna_any c \<or> (n, c) \<in> set ?data2" by auto
  qed
  from run full same show ?thesis by blast
qed

theorem replace_nans_result_witness:
  "distinct (map fst
     [(''TransactionAmt'', Float64 [Some (10::rat), None, Some 30]),
      (''ProductCD'', Object [Some ''W'', None, Some ''C'']),
      (''card1'', Int64 [Some 7, Some 8, Some 9])])
   \<and> (''TransactionAmt'', Float64 [Some (10::rat), None, Some 30])
        \<in> set [(''TransactionAmt'', Float64 [Some (10::rat), None, Some 30]),
                (''ProductCD'', Object [Some ''W'', None, Some ''C'']),
                (''card1'', Int64 [Some 7, Some 8, Some 9])]
   \<and> None \<in> set [Some (10::rat), None, Some 30]
   \<and> observed [Some (10::rat), None, Some 30] \<noteq> []
   \<and> replace_nans median_rat
        [(''TransactionAmt'', Float64 [Some (10::rat), None, Some 30]),
         (''ProductCD'', Object [Some ''W'', None, Some ''C'']),
         (''card1'', Int64 [Some 7, Some 8, Some 9])]
      = Inr [(''TransactionAmt'', Float64 [Some 10, Some 20, Some 30]),
             (''ProductCD'', Object [Some ''W'', Some ''UNKNOWN'', Some ''C'']),
             (''card1'', Int64 [Some 7, Some 8, Some 9])]"
proof -
  let ?data = "[(''TransactionAmt'', Float64 [Some (10::rat), None, Some 30]),
                (''ProductCD'', Object [Some ''W'', None, Some ''C'']),
                (''card1'', Int64 [Some 7, Some 8, Some 9])]"
  have h1: "distinct (map fst ?data)" by simp
  have h2: "(''TransactionAmt'', Float64 [Some (10::rat), None, Some 30]) \<in> set ?data" by simp
  have h3: "None \<in> set [Some (10::rat), None, Some 30]" by simp
  have h4: "\<forall>n xs. (n, Float64 xs) \<in> set ?data \<and> None \<in> set xs \<longrightarrow> observed xs \<noteq> []"
    by (auto simp: observed_def List.map_filter_simps)
  have m: "median_rat (observed [Some (10::rat), None, Some 30]) = 20"
    by (simp add: median_rat_def observed_def List.map_filter_simps)
  from replace_nans_result [OF h1 h2 h3 h4, where median = median_rat]
  have "replace_nans median_rat ?data
          = Inr [(''TransactionAmt'', Float64 [Some 10, Some 20, Some 30]),
                 (''ProductCD'', Object [Some ''W'', Some ''UNKNOWN'', Some ''C'']),
                 (''card1'', Int64 [Some 7, Some 8, Some 9])]"
    by (auto simp: fill_def m)
  moreover have "observed [Some (10::rat), None, Some 30] \<noteq> []"
    by (simp add: observed_def List.map_filter_simps)
  ultimately show ?thesis using h1 h2 h3 by blast
qed


text \<open>
  Claim C6 as stated, that no column has a missing value afterwards, fails for a
  column that is neither float64 nor object: the cell selects those two dtypes only,
  and the missing entry of an integer column is still missing after it.
\<close>

theorem replace_nans_keeps_missing_integer:
  "replace_nans median_rat
     [(''TransactionAmt'', Float64 [Some (10::rat), None, Some 30]),
      (''card1'', Int64 [Some 7, None, Some 9])]
   = Inr [(''TransactionAmt'', Float64 [Some 10, Some 20, Some 30]),
          (''card1'', Int64 [Some 7, None, Some 9])]
   \<and> isna_any (Int64 [Some 7, None, Some 9] :: rat column)"
proof -
  let ?data = "[(''TransactionAmt'', Float64 [Some (10::rat), None, Some 30]),
                (''card1'', Int64 [Some 7, None, Some 9])]"
  have h1: "distinct (map fst ?data)" by simp
  have h2: "(''TransactionAmt'', Float64 [Some (10::rat), None, Some 30]) \<in> set ?data" by simp
  have h3: "None \<in> set [Some (10::rat), None, Some 30]" by simp
  have h4: "\<forall>n xs. (n, Float64 xs) \<in> set ?data \<and> None \<in> set xs \<longrightarrow> observed xs \<noteq> []"
    by (auto simp: observed_def List.map_filter_simps)
  have m: "median_rat (observed [Some (10::rat), None, Some 30]) = 20"
    by (simp add: median_rat_def observed_def List.map_filter_simps)
  from replace_nans_eq [OF h1 h2 h3 h4, where median = median_rat]
  show ?thesis
    by (simp add: fill_def m)
qed

section \<open>The argument of the conversion\<close>

lemma setitem_frame:
  assumes "setitem st r col s = Inr st'"
  shows "next_ref st' = next_ref st"
    and "a \<noteq> r \<Longrightarrow> objects st' a = objects st a"
  using assms by (auto simp: setitem_def split: option.splits)

lemma encode_categories_frame:
  assumes "encode_categories st df cols = Inr st'"
  shows "next_ref st' = next_ref st \<and> (\<forall>a. a \<noteq> df \<longrightarrow> objects st' a = objects st a)"
  using assms
proof (induction cols arbitrary: st)
  case Nil
  then show ?case by simp
next
  case (Cons col cols)
  from Cons.prems obtain s codes st1 where
    step: "setitem st df col codes = Inr st1" and
    rest: "encode_categories st1 df cols = Inr st'"
    by (auto split: sum.splits)
  from Cons.IH [OF rest] setitem_frame [OF step] show ?case by simp
qed

lemma downcast_columns_frame:
  assumes "downcast_columns to_numeric st df cols = Inr st'"
  shows "next_ref st' = next_ref st \<and> (\<forall>a. a \<noteq> df \<longrightarrow> objects st' a = objects st a)"
  using assms
proof (induction cols arbitrary: st)
  case Nil
  then show ?case by simp
next
  case (Cons col cols)
  from Cons.prems obtain s s' st1 where
    step: "setitem st df col s' = Inr st1" and
    rest: "downcast_columns to_numeric st1 df cols = Inr st'"
    by (auto split: sum.splits)
  from Cons.IH [OF rest] setitem_frame [OF step] show ?case by simp
qed

lemma df_copy_frame:
  assumes "df_copy st arg = Inr (st1, df)"
  shows "df = next_ref st" and "next_ref st1 = Suc (next_ref st)"
    and "a \<noteq> next_ref st \<Longrightarrow> objects st1 a = objects st a"
    and "objects st1 df = objects st arg"
  using assms by (auto simp: df_copy_def split: option.splits)

text \<open>
  Claim C10. When \<open>convert_to_numpy\<close> returns, the frame its argument refers to is as
  it was before the call, and so is every other frame that existed: the category codes
  and the numeric conversion are written to the copy, a new object, and the values
  returned are those of the copy.
\<close>

theorem convert_to_numpy_frame:
  assumes "arg < next_ref st"
    and "convert_to_numpy to_numeric st arg = Inr (st', vals)"
  shows "objects st' arg = objects st arg
       \<and> (\<forall>a. a < next_ref st \<longrightarrow> objects st' a = objects st a)
       \<and> df_values st' (next_ref st) = Inr vals"
proof -
  from assms(2) obtain st1 df cat_cols st2 cols where
    copy: "df_copy st arg = Inr (st1, df)" and
    enc: "encode_categories st1 df cat_cols = Inr st2" and
    down: "downcast_columns to_numeric st2 df cols = Inr st'" and
    vals: "df_values st' df = Inr vals"
    by (auto simp: convert_to_numpy_def split: sum.splits prod.splits)
  note c = df_copy_frame [OF copy]
  have e: "\<forall>a. a \<noteq> df \<longrightarrow> objects st2 a = objects st1 a"
    using encode_categories_frame [OF enc] by simp
  have d: "\<forall>a. a \<noteq> df \<longrightarrow> objects st' a = objects st2 a"
    using downcast_columns_frame [OF down] by simp
  have old: "objects st' a = objects st a" if "a < next_ref st" for a
  proof -
    from that c(1) have "a \<noteq> df" by simp
    with e d have "objects st' a = objects st1 a" by simp
    also have "\<dots> = objects st a" using that by (intro c(3)) simp
    finally show ?thesis .
  qed
  from old [OF assms(1)] old vals c(1) show ?thesis by simp
qed

theorem convert_to_numpy_frame_witness:
  "(0::nat) < next_ref
       \<lparr>objects = [0 \<mapsto> [(''ProductCD'', Categorical [1, 0] [''C'', ''W'']),
                           (''card1'', Plain [IntCell 7, IntCell 9])]],
        next_ref = 1\<rparr>
   \<and> convert_to_numpy to_numeric_rat
       \<lparr>objects = [0 \<mapsto> [(''ProductCD'', Categorical [1, 0] [''C'', ''W'']),
                           (''card1'', Plain [IntCell 7, IntCell 9])]],
        next_ref = 1\<rparr> 0
     = Inr (\<lparr>objects = [0 \<mapsto> [(''ProductCD'', Categorical [1, 0] [''C'', ''W'']),
                                (''card1'', Plain [IntCell 7, IntCell 9])],
                         1 \<mapsto> [(''ProductCD'', Plain [FloatCell 1, FloatCell 0]),
                                (''card1'', Plain [FloatCell 7, FloatCell 9])]],
             next_ref = 2\<rparr>,
            [Plain [FloatCell 1, FloatCell 0], Plain [FloatCell 7, FloatCell 9]])
   \<and> objects
        \<lparr>objects = [0 \<mapsto> [(''ProductCD'', Categorical [1, 0] [''C'', ''W'']),
                            (''card1'', Plain [IntCell 7, IntCell 9])],
                     1 \<mapsto> [(''ProductCD'', Plain [FloatCell 1, FloatCell 0]),
                            (''card1'', Plain [FloatCell 7, FloatCell 9])]],
         next_ref = 2\<rparr> 0
     = objects
        \<lparr>objects = [0 \<mapsto> [(''ProductCD'', Categorical [1, 0] [''C'', ''W'']),
                            (''card1'', Plain [IntCell 7, IntCell 9])]],
         next_ref = 1\<rparr> 0"
proof -
  let ?st = "\<lparr>objects = [0 \<mapsto> [(''ProductCD'', Categorical [1, 0] [''C'', ''W'']),
                                 (''card1'', Plain [IntCell 7, IntCell (9::int) :: rat cell])]],
              next_ref = 1::nat\<rparr>"
  let ?st' = "\<lparr>objects = [0 \<mapsto> [(''ProductCD'', Categorical [1, 0] [''C'', ''W'']),
                                (''card1'', Plain [IntCell 7, IntCell 9])],
                         1 \<mapsto> [(''ProductCD'', Plain [FloatCell 1, FloatCell 0]),
                                (''card1'', Plain [FloatCell 7, FloatCell (9::rat)])]],
             next_ref = 2::nat\<rparr>"
  have h1: "(0::nat) < next_ref ?st" by simp
  have h2: "convert_to_numpy to_numeric_rat ?st 0
              = Inr (?st', [Plain [FloatCell 1, FloatCell 0], Plain [FloatCell 7, FloatCell 9]])"
    by (simp add: convert_to_numpy_def df_copy_def category_columns_def getitem_def
          setitem_def df_columns_def df_values_def fun_upd_twist)
  from convert_to_numpy_frame [OF h1 h2] h1 h2 show ?thesis by simp
qed

section \<open>The image of the final stage\<close>

lemma run_mkdir_result:
  assumes "run_mkdir img p = Inr img'"
  shows "env img' = env img" and "tree img' = (tree img)(p \<mapsto> Dir)" and "tree img p = None"
  using assms by (auto simp: run_mkdir_def split: if_splits)

lemma run_rm_contents_if_dir_env: "env (run_rm_contents_if_dir img d) = env img"
  by (simp add: run_rm_contents_if_dir_def)

lemma run_rm_contents_if_dir_tree:
  "tree (run_rm_contents_if_dir img d) p
     = (if tree img d = Some Dir \<and> star_match d p then None else tree img p)"
  by (simp add: run_rm_contents_if_dir_def)

lemma strict_prefix_take:
  "strict_prefix d p \<longleftrightarrow> length d < length p \<and> take (length d) p = d"
proof
  assume "strict_prefix d p"
  then obtain zs where zs: "p = d @ zs" "zs \<noteq> []"
    by (auto simp: strict_prefix_def prefix_def)
  then show "length d < length p \<and> take (length d) p = d" by simp
next
  assume a: "length d < length p \<and> take (length d) p = d"
  have "take (length d) p @ drop (length d) p = p" by (rule append_take_drop_id)
  with a have "d @ drop (length d) p = p" by (simp only:)
  then have "prefix d p" by (metis prefixI)
  moreover from a have "d \<noteq> p" by auto
  ultimately show "strict_prefix d p" by (simp add: strict_prefix_def)
qed

lemma star_match_below: "star_match d p \<Longrightarrow> strict_prefix d p"
  by (simp add: star_match_def strict_prefix_take)

lemma copy_from_result:
  assumes "copy_from stage src img dst = Inr img'"
  shows "env img' = env img"
    and "stage src = Some Dir"
    and "tree img' p
           = (if strict_prefix dst p \<and> stage (src @ drop (length dst) p) \<noteq> None
              then stage (src @ drop (length dst) p)
              else if prefix p dst \<and> tree img p = None then Some Dir
              else tree img p)"
    and "prefix p dst \<Longrightarrow> tree img p = None \<or> tree img p = Some Dir"
proof -
  from assms have dir: "stage src = Some Dir"
    by (auto simp: copy_from_def split: option.splits node.splits if_splits)
  then show "stage src = Some Dir" .
  from assms dir have
    nofile: "\<not> list_ex (\<lambda>q. case tree img q of Some (File content) \<Rightarrow> True | _ \<Rightarrow> False)
               (prefixes dst)"
    and img': "img' = img\<lparr>tree :=
                 (\<lambda>p. if length dst < length p \<and> take (length dst) p = dst
                          \<and> stage (src @ drop (length dst) p) \<noteq> None
                       then stage (src @ drop (length dst) p)
                       else if p \<in> set (prefixes dst) \<and> tree img p = None then Some Dir
                       else tree img p)\<rparr>"
    by (auto simp: copy_from_def split: if_splits)
  show "env img' = env img" by (simp add: img')
  show "tree img' p
           = (if strict_prefix dst p \<and> stage (src @ drop (length dst) p) \<noteq> None
              then stage (src @ drop (length dst) p)
              else if prefix p dst \<and> tree img p = None then Some Dir
              else tree img p)"
    unfolding strict_prefix_take by (auto simp: img' in_set_prefixes)
  show "tree img p = None \<or> tree img p = Some Dir" if "prefix p dst"
  proof (cases "tree img p")
    case None
    then show ?thesis by simp
  next
    case (Some n)
    show ?thesis
    proof (cases n)
      case Dir
      with Some show ?thesis by simp
    next
      case (File content)
      from that have "p \<in> set (prefixes dst)" by (simp add: in_set_prefixes)
      with nofile have "\<not> (case tree img p of Some (File content) \<Rightarrow> True | _ \<Rightarrow> False)"
        unfolding list_ex_iff by blast
      with Some File show ?thesis by simp
    qed
  qed
qed


lemma models_not_backend:
  "\<not> prefix [''models''] (backend_dir name)"
  "\<not> strict_prefix (backend_dir name) [''models'']"
  by (auto simp: backend_dir_def strict_prefix_def)

lemma below_backend_not_models:
  "prefix (backend_dir name) p \<Longrightarrow> p \<noteq> [''models'']"
  by (auto simp: backend_dir_def)

lemma final_stage_steps:
  assumes "final_stage base build_stage build_arg = Inr img"
  shows "\<exists>img2.
           run_mkdir (base\<lparr>env := (env base)(''BACKEND_NAME'' \<mapsto> backend_name base build_arg)\<rparr>)
             [''models''] = Inr img2
         \<and> copy_from build_stage (backend_dir (backend_name base build_arg))
              (run_rm_contents_if_dir img2 (backend_dir (backend_name base build_arg)))
              (backend_dir (backend_name base build_arg)) = Inr img"
  using assms by (auto simp: final_stage_def Let_def split: sum.splits)


lemma final_stage_image:
  assumes "final_stage base build_stage build_arg = Inr img"
  shows "env img = (env base)(''BACKEND_NAME'' \<mapsto> backend_name base build_arg)"
    and "tree img [''models''] = Some Dir"
    and "tree base [''models''] = None"
    and "prefix p (backend_dir (backend_name base build_arg)) \<Longrightarrow> tree img p = Some Dir"
    and "strict_prefix (backend_dir (backend_name base build_arg)) p \<Longrightarrow>
           tree img p
             = (if build_stage p \<noteq> None then build_stage p
                else if tree base (backend_dir (backend_name base build_arg)) = Some Dir
                        \<and> star_match (backend_dir (backend_name base build_arg)) p then None
                else tree base p)"
    and "p \<noteq> [''models''] \<Longrightarrow> \<not> prefix p (backend_dir (backend_name base build_arg)) \<Longrightarrow>
           \<not> strict_prefix (backend_dir (backend_name base build_arg)) p \<Longrightarrow>
           tree img p = tree base p"
proof -
  let ?name = "backend_name base build_arg"
  let ?D = "backend_dir ?name"
  let ?img1 = "base\<lparr>env := (env base)(''BACKEND_NAME'' \<mapsto> ?name)\<rparr>"
  from final_stage_steps [OF assms] obtain img2 where
    mk: "run_mkdir ?img1 [''models''] = Inr img2" and
    cp: "copy_from build_stage ?D (run_rm_contents_if_dir img2 ?D) ?D = Inr img"
    by blast
  let ?img3 = "run_rm_contents_if_dir img2 ?D"
  note m = run_mkdir_result [OF mk]
  have t2: "tree img2 q = (if q = [''models''] then Some Dir else tree base q)" for q
    by (simp add: m(2))
  have t3: "tree ?img3 q
              = (if tree img2 ?D = Some Dir \<and> star_match ?D q then None else tree img2 q)" for q
    by (rule run_rm_contents_if_dir_tree)
  have D_models: "?D \<noteq> [''models'']"
    using below_backend_not_models [of ?name ?D] by simp
  have t2D: "tree img2 ?D = tree base ?D"
    using D_models by (simp add: t2)
  have t3b: "tree ?img3 q
               = (if tree base ?D = Some Dir \<and> star_match ?D q then None
                  else if q = [''models''] then Some Dir else tree base q)" for q
    unfolding t3 t2D by (simp only: t2)
  note c = copy_from_result [OF cp]
  show "env img = (env base)(''BACKEND_NAME'' \<mapsto> ?name)"
    by (simp add: c(1) run_rm_contents_if_dir_env m(1))
  show "tree base [''models''] = None"
    using m(3) by simp
  have no_star_models: "\<not> star_match ?D [''models'']"
    using models_not_backend(2) star_match_below by blast
  show "tree img [''models''] = Some Dir"
    using models_not_backend [of ?name] no_star_models
    by (simp add: c(3) t3b)
  show "tree img p = Some Dir" if "prefix p ?D"
  proof -
    from that have ns: "\<not> strict_prefix ?D p"
      by (auto simp: strict_prefix_def)
    from c(4) [OF that] have "tree ?img3 p = None \<or> tree ?img3 p = Some Dir" .
    with that ns show ?thesis
      by (auto simp: c(3))
  qed
  show "tree img p
          = (if build_stage p \<noteq> None then build_stage p
             else if tree base ?D = Some Dir \<and> star_match ?D p then None
             else tree base p)"
    if "strict_prefix ?D p"
  proof -
    from that have pre: "prefix ?D p" by (simp add: strict_prefix_def)
    then have p_eq: "?D @ drop (length ?D) p = p"
      by (auto simp: prefix_def)
    from pre have pm: "p \<noteq> [''models'']" by (rule below_backend_not_models)
    from that have np: "\<not> prefix p ?D"
      by (auto simp: strict_prefix_def)
    show ?thesis
      using that np pm by (simp add: c(3) p_eq t3b)
  qed
  show "tree img p = tree base p"
    if "p \<noteq> [''models'']" "\<not> prefix p ?D" "\<not> strict_prefix ?D p"
  proof -
    from that(3) have "\<not> star_match ?D p"
      using star_match_below by blast
    with that show ?thesis
      by (simp add: c(3) t3b)
  qed
qed


lemma copy_from_ok:
  assumes "stage src = Some Dir"
    and "\<forall>q. prefix q dst \<longrightarrow> tree img q = None \<or> tree img q = Some Dir"
  shows "\<exists>img'. copy_from stage src img dst = Inr img'"
proof -
  have "\<not> list_ex (\<lambda>q. case tree img q of Some (File content) \<Rightarrow> True | _ \<Rightarrow> False)
          (prefixes dst)"
    using assms(2) by (auto simp: list_ex_iff in_set_prefixes)
  with assms(1) show ?thesis by (simp add: copy_from_def)
qed

lemma example_builds:
  "\<exists>img. final_stage example_base example_build_stage (Some ''fil'') = Inr img"
proof -
  let ?D = "[''opt'', ''tritonserver'', ''backends'', ''fil'']"
  let ?img1 = "example_base\<lparr>env := (env example_base)(''BACKEND_NAME'' \<mapsto> ''fil'')\<rparr>"
  let ?img2 = "?img1\<lparr>tree := (tree ?img1)([''models''] \<mapsto> Dir)\<rparr>"
  have name: "backend_name example_base (Some ''fil'') = ''fil''"
    by (simp add: backend_name_def example_base_def)
  have D: "backend_dir ''fil'' = ?D"
    by (simp add: backend_dir_def)
  have mk: "run_mkdir ?img1 [''models''] = Inr ?img2"
    by (simp add: run_mkdir_def example_base_def)
  have src: "example_build_stage ?D = Some Dir"
    by (simp add: example_build_stage_def)
  have "tree (run_rm_contents_if_dir ?img2 ?D) q = None
          \<or> tree (run_rm_contents_if_dir ?img2 ?D) q = Some Dir" if "prefix q ?D" for q
  proof -
    from that have "q \<in> set (prefixes ?D)" by (simp only: in_set_prefixes)
    then have "q \<in> {[], [''opt''], [''opt'', ''tritonserver''],
                     [''opt'', ''tritonserver'', ''backends''], ?D}"
      by auto
    then show ?thesis
      by (auto simp: run_rm_contents_if_dir_tree star_match_def example_base_def)
  qed
  then have "\<exists>img. copy_from example_build_stage ?D (run_rm_contents_if_dir ?img2 ?D) ?D
                 = Inr img"
    using src by (intro copy_from_ok) blast+
  then show ?thesis
    unfolding final_stage_def Let_def name D mk by (simp only: sum.case)
qed

text \<open>
  Claim C7, as amended. Let the backend name (the value of \<open>BACKEND_NAME\<close> already in
  the base image's environment, else the build argument, else the empty string) be
  plain: empty, or made of letters, digits, \<^verbatim>\<open>_\<close>, \<^verbatim>\<open>-\<close> and \<^verbatim>\<open>.\<close> and neither \<^verbatim>\<open>.\<close> nor
  \<^verbatim>\<open>..\<close>. Then whenever the final stage builds, its image is the base image
  changed in these ways and no other: the environment has \<open>BACKEND_NAME\<close> set (to the
  value already in the environment, else to the build argument, else to the empty
  string); \<^verbatim>\<open>/models\<close> is a new directory; the backend directory and the directories
  above it are directories; a path below the backend directory has what the build stage
  has at that path, and where the build stage has nothing it has what the base image
  had, unless the base image had the backend directory and the path is under an entry
  whose name does not start with a dot, which is removed; every other path has what
  the base image has. So nothing of the other stages is in the image but what is below
  the backend directory of the build stage.
\<close>

theorem final_stage_frame:
  assumes "plain_name (backend_name base build_arg)"
    and "final_stage base build_stage build_arg = Inr img"
  shows "env img = (env base)(''BACKEND_NAME'' \<mapsto> backend_name base build_arg)
       \<and> tree base [''models''] = None
       \<and> tree img [''models''] = Some Dir
       \<and> (\<forall>p. prefix p (backend_dir (backend_name base build_arg)) \<longrightarrow> tree img p = Some Dir)
       \<and> (\<forall>p. strict_prefix (backend_dir (backend_name base build_arg)) p \<longrightarrow>
              tree img p
                = (if build_stage p \<noteq> None then build_stage p
                   else if tree base (backend_dir (backend_name base build_arg)) = Some Dir
                           \<and> star_match (backend_dir (backend_name base build_arg)) p then None
                   else tree base p))
       \<and> (\<forall>p. p \<noteq> [''models'']
              \<and> \<not> prefix p (backend_dir (backend_name base build_arg))
              \<and> \<not> strict_prefix (backend_dir (backend_name base build_arg)) p \<longrightarrow>
              tree img p = tree base p)"
  using final_stage_image [OF assms(2)] by blast

theorem final_stage_frame_witness:
  "plain_name (backend_name example_base (Some ''fil''))
   \<and> (\<exists>img. final_stage example_base example_build_stage (Some ''fil'') = Inr img
     \<and> env img = [''PATH'' \<mapsto> ''/opt/tritonserver/bin'', ''BACKEND_NAME'' \<mapsto> ''fil'']
     \<and> tree img [''models''] = Some Dir
     \<and> tree img [''opt'', ''tritonserver'', ''backends'', ''fil'', ''libtriton_fil.so'']
         = Some (File ''new'')
     \<and> tree img [''rapids_triton'', ''CMakeLists.txt''] = None)"
proof -
  from example_builds obtain img where
    run: "final_stage example_base example_build_stage (Some ''fil'') = Inr img" ..
  have name: "backend_name example_base (Some ''fil'') = ''fil''"
    by (simp add: backend_name_def example_base_def)
  have D: "backend_dir ''fil'' = [''opt'', ''tritonserver'', ''backends'', ''fil'']"
    by (simp add: backend_dir_def)
  have plain: "plain_name (backend_name example_base (Some ''fil''))"
    unfolding name by (simp add: plain_name_def plain_char_def)
  note f = final_stage_frame [OF plain run, unfolded name D]
  have e: "env img = [''PATH'' \<mapsto> ''/opt/tritonserver/bin'', ''BACKEND_NAME'' \<mapsto> ''fil'']"
    using f by (simp add: example_base_def)
  have m: "tree img [''models''] = Some Dir"
    using f by simp
  have "strict_prefix [''opt'', ''tritonserver'', ''backends'', ''fil'']
          [''opt'', ''tritonserver'', ''backends'', ''fil'', ''libtriton_fil.so'']"
    by (simp add: strict_prefix_def)
  with f have so: "tree img [''opt'', ''tritonserver'', ''backends'', ''fil'', ''libtriton_fil.so'']
              = Some (File ''new'')"
    by (simp add: example_build_stage_def)
  have "[''rapids_triton'', ''CMakeLists.txt''] \<noteq> [''models'']
        \<and> \<not> prefix [''rapids_triton'', ''CMakeLists.txt'']
              [''opt'', ''tritonserver'', ''backends'', ''fil'']
        \<and> \<not> strict_prefix [''opt'', ''tritonserver'', ''backends'', ''fil'']
              [''rapids_triton'', ''CMakeLists.txt'']"
    by (simp add: strict_prefix_def)
  with f have src: "tree img [''rapids_triton'', ''CMakeLists.txt'']
                      = tree example_base [''rapids_triton'', ''CMakeLists.txt'']"
    by blast
  have "tree example_base [''rapids_triton'', ''CMakeLists.txt''] = None"
    by (simp add: example_base_def)
  with run e m so src have
    "\<exists>img. final_stage example_base example_build_stage (Some ''fil'') = Inr img
       \<and> env img = [''PATH'' \<mapsto> ''/opt/tritonserver/bin'', ''BACKEND_NAME'' \<mapsto> ''fil'']
       \<and> tree img [''models''] = Some Dir
       \<and> tree img [''opt'', ''tritonserver'', ''backends'', ''fil'', ''libtriton_fil.so'']
           = Some (File ''new'')
       \<and> tree img [''rapids_triton'', ''CMakeLists.txt''] = None"
    by auto
  with plain show ?thesis by (rule conjI)
qed

text \<open>
  Claim C7 as stated lists three changes of the file tree as the stage's only changes.
  The stage also sets the environment variable \<open>BACKEND_NAME\<close> in the image, which the
  base image does not have.
\<close>

theorem final_stage_sets_environment:
  "map_sum id env (final_stage example_base example_build_stage (Some ''fil''))
     = Inr [''PATH'' \<mapsto> ''/opt/tritonserver/bin'', ''BACKEND_NAME'' \<mapsto> ''fil'']
   \<and> env example_base ''BACKEND_NAME'' = None"
proof -
  from example_builds obtain img where
    run: "final_stage example_base example_build_stage (Some ''fil'') = Inr img" ..
  have name: "backend_name example_base (Some ''fil'') = ''fil''"
    by (simp add: backend_name_def example_base_def)
  have "env img = [''PATH'' \<mapsto> ''/opt/tritonserver/bin'', ''BACKEND_NAME'' \<mapsto> ''fil'']"
    using final_stage_image(1) [OF run] unfolding name by (simp add: example_base_def)
  with run show ?thesis by (simp add: example_base_def)
qed

section \<open>The layout written for the server\<close>




























end
